theory Spec2Isabelle
  imports Complex_Main "HOL-Library.Sublist"
begin

section \<open>Text: characters, trimming, splitting, joining\<close>

text \<open>
  The importer works on Python \<open>str\<close> values. They are modelled as \<open>string\<close>; one
  \<open>char\<close> stands for one code point below 256, and the character classes below are
  the ones Python's \<open>str.isspace\<close>, \<open>str.lower\<close> and the \<open>re\<close> module's \<open>\s\<close>,
  \<open>\d\<close>, \<open>\w\<close> assign to these code points.
\<close>

definition is_space :: "char \<Rightarrow> bool" where
  "is_space c =
     (let n = (of_char c :: nat)
      in (9 \<le> n \<and> n \<le> 13) \<or> (28 \<le> n \<and> n \<le> 32) \<or> n = 133 \<or> n = 160)"

definition is_digit :: "char \<Rightarrow> bool" where
  "is_digit c = (let n = (of_char c :: nat) in 48 \<le> n \<and> n \<le> 57)"

definition is_word :: "char \<Rightarrow> bool" where
  "is_word c =
     (let n = (of_char c :: nat)
      in (48 \<le> n \<and> n \<le> 57) \<or> (65 \<le> n \<and> n \<le> 90) \<or> n = 95 \<or> (97 \<le> n \<and> n \<le> 122)
         \<or> n = 170 \<or> n = 178 \<or> n = 179 \<or> n = 181 \<or> n = 185 \<or> n = 186
         \<or> (188 \<le> n \<and> n \<le> 190) \<or> (192 \<le> n \<and> n \<noteq> 215 \<and> n \<noteq> 247))"

definition lower_char :: "char \<Rightarrow> char" where
  "lower_char c =
     (let n = (of_char c :: nat)
      in if (65 \<le> n \<and> n \<le> 90) \<or> (192 \<le> n \<and> n \<le> 222 \<and> n \<noteq> 215)
         then char_of (n + 32) else c)"

text \<open>\<open>s.lower()\<close>\<close>

definition lower :: "string \<Rightarrow> string" where
  "lower s = map lower_char s"

text \<open>\<open>s.strip(chars)\<close> for a set of characters, and \<open>s.strip()\<close> for whitespace.\<close>

definition strip_of :: "(char \<Rightarrow> bool) \<Rightarrow> string \<Rightarrow> string" where
  "strip_of P s = rev (dropWhile P (rev (dropWhile P s)))"

definition strip :: "string \<Rightarrow> string" where
  "strip s = strip_of is_space s"

text \<open>\<open>s.split(sep)\<close> for a one-character separator: never an empty list.\<close>

fun split_on :: "char \<Rightarrow> string \<Rightarrow> string list" where
  "split_on sep [] = [[]]"
| "split_on sep (c # cs) =
     (if c = sep then [] # split_on sep cs
      else (case split_on sep cs of
              [] \<Rightarrow> [[c]]
            | p # ps \<Rightarrow> (c # p) # ps))"

text \<open>\<open>sep.join(xs)\<close>\<close>

fun join :: "string \<Rightarrow> string list \<Rightarrow> string" where
  "join sep [] = []"
| "join sep [x] = x"
| "join sep (x # y # ys) = x @ sep @ join sep (y # ys)"

text \<open>\<open>sub in s\<close> on strings: \<open>sub\<close> occurs in \<open>s\<close> as a contiguous piece.\<close>

fun contains :: "string \<Rightarrow> string \<Rightarrow> bool" where
  "contains sub [] = (sub = [])"
| "contains sub (c # cs) = (prefix sub (c # cs) \<or> contains sub cs)"

text \<open>Truthiness of an optional string: \<open>None\<close> and \<open>""\<close> are false.\<close>

fun truthy :: "string option \<Rightarrow> bool" where
  "truthy None = False"
| "truthy (Some s) = (s \<noteq> [])"

text \<open>\<open>x or ""\<close> for an optional string.\<close>

fun or_empty :: "string option \<Rightarrow> string" where
  "or_empty None = []"
| "or_empty (Some s) = s"


section \<open>Regular expressions as the \<open>re\<close> module matches them\<close>

text \<open>
  The patterns of the importer use literals, \<open>\b\<close>, \<open>^\<close>, \<open>$\<close>, concatenation,
  alternation, a greedy optional group and greedy repetition of one character class.
  \<open>matches\<close> lists the ways a pattern can match at the start of the text in the order
  a backtracking matcher tries them; each way is the last character before the rest
  (for \<open>\b\<close> and \<open>^\<close>) and the rest of the text. The first way is the match.
\<close>

datatype cclass = Space | Digit | Only char

fun in_class :: "cclass \<Rightarrow> char \<Rightarrow> bool" where
  "in_class Space c = is_space c"
| "in_class Digit c = is_digit c"
| "in_class (Only d) c = (c = d)"

datatype regex =
    Eps
  | Lit string
  | Wordb
  | Bos
  | Eos
  | Cat regex regex
  | Alt regex regex
  | Opt regex
  | AtLeast cclass nat
  | Exactly cclass nat

text \<open>The character before the rest after \<open>n\<close> characters were consumed.\<close>

definition prev_after :: "char option \<Rightarrow> string \<Rightarrow> nat \<Rightarrow> char option" where
  "prev_after prev s n = (if n = 0 \<or> s = [] then prev else Some (last (take n s)))"

definition word_before :: "char option \<Rightarrow> bool" where
  "word_before prev = (case prev of None \<Rightarrow> False | Some c \<Rightarrow> is_word c)"

definition word_after :: "string \<Rightarrow> bool" where
  "word_after s = (case s of [] \<Rightarrow> False | c # _ \<Rightarrow> is_word c)"

fun matches :: "bool \<Rightarrow> regex \<Rightarrow> char option \<Rightarrow> string \<Rightarrow> (char option \<times> string) list" where
  "matches ic Eps prev s = [(prev, s)]"
| "matches ic (Lit w) prev s =
     (let t = take (length w) s
      in if length w \<le> length s \<and> (if ic then lower t = lower w else t = w)
         then [(prev_after prev s (length w), drop (length w) s)] else [])"
| "matches ic Wordb prev s = (if word_before prev \<noteq> word_after s then [(prev, s)] else [])"
| "matches ic Bos prev s = (if prev = None then [(prev, s)] else [])"
| "matches ic Eos prev s = (if s = [] \<or> s = [CHR 0x0A] then [(prev, s)] else [])"
| "matches ic (Cat r1 r2) prev s =
     concat (map (\<lambda>ps. matches ic r2 (fst ps) (snd ps)) (matches ic r1 prev s))"
| "matches ic (Alt r1 r2) prev s = matches ic r1 prev s @ matches ic r2 prev s"
| "matches ic (Opt r) prev s = matches ic r prev s @ [(prev, s)]"
| "matches ic (AtLeast cl n) prev s =
     (let k = length (takeWhile (in_class cl) s)
      in map (\<lambda>j. (prev_after prev s j, drop j s)) (rev [n ..< Suc k]))"
| "matches ic (Exactly cl n) prev s =
     (if n \<le> length (takeWhile (in_class cl) s)
      then [(prev_after prev s n, drop n s)] else [])"

definition match_at :: "bool \<Rightarrow> regex \<Rightarrow> char option \<Rightarrow> string \<Rightarrow> (char option \<times> string) option" where
  "match_at ic r prev s = (case matches ic r prev s of [] \<Rightarrow> None | m # _ \<Rightarrow> Some m)"

text \<open>
  \<open>re.sub(pattern, repl, s)\<close>: scan from the left, replace each match and go on
  behind it; where no match starts, copy one character. None of the importer's patterns
  can match the empty string, so a match always consumes text and no match starts at
  the end of the text; \<open>repl\<close> is plain text in every call.
\<close>

function re_sub :: "bool \<Rightarrow> regex \<Rightarrow> string \<Rightarrow> char option \<Rightarrow> string \<Rightarrow> string" where
  "re_sub ic r repl prev [] = []"
| "re_sub ic r repl prev (c # cs) =
     (case match_at ic r prev (c # cs) of
        None \<Rightarrow> c # re_sub ic r repl (Some c) cs
      | Some m \<Rightarrow>
          if length (snd m) < length (c # cs)
          then repl @ re_sub ic r repl (fst m) (snd m)
          else c # re_sub ic r repl (Some c) cs)"
  by pat_completeness auto
termination
  by (relation "measure (\<lambda>(ic, r, repl, prev, s). length s)") auto

text \<open>A sequence of patterns.\<close>

definition seq :: "regex list \<Rightarrow> regex" where
  "seq rs = foldr Cat rs Eps"


section \<open>Configuration\<close>

text \<open>
  \<open>ABBR_MAP\<close>, in the order the dictionary is written (the order the loop of
  \<open>normalize_address\<close> visits it); every pattern is applied ignoring case.
\<close>

definition ABBR_MAP :: "(regex \<times> string) list" where
  "ABBR_MAP =
    [(seq [Wordb, Lit ''Jl'', Opt (Lit ''.''), Wordb], ''Jalan''),
     (seq [Wordb, Lit ''Gg'', Opt (Lit ''.''), Wordb], ''Gang''),
     (seq [Wordb, Lit ''Kec'', Opt (Lit ''.''), Wordb], ''''),
     (seq [Wordb, Lit ''Kab'', Opt (Alt (Lit ''.'') (Lit ''upaten'')), Wordb], ''''),
     (seq [Wordb, Lit ''Kota'', Wordb], ''''),
     (seq [Wordb, Lit ''Bar'', Lit ''.'', Wordb], ''Barat''),
     (seq [Wordb, Lit ''Sel'', Lit ''.'', Wordb], ''Selatan''),
     (seq [Wordb, Lit ''Ut'', Lit ''.'', Wordb], ''Utara''),
     (seq [Wordb, Lit ''Tim'', Lit ''.'', Wordb], ''Timur''),
     (seq [Wordb, Lit ''Regency'', Wordb], '''')]"

text \<open>\<open>POSTCODE_RE = \b\d{5}\b\<close>\<close>

definition POSTCODE_RE :: regex where
  "POSTCODE_RE = seq [Wordb, Exactly Digit 5, Wordb]"


section \<open>Helpers\<close>

text \<open>The loop over \<open>ABBR_MAP\<close>.\<close>

fun apply_abbr :: "(regex \<times> string) list \<Rightarrow> string \<Rightarrow> string" where
  "apply_abbr [] a = a"
| "apply_abbr ((pat, repl) # rest) a = apply_abbr rest (re_sub True pat repl None a)"

definition is_comma_or_blank :: "char \<Rightarrow> bool" where
  "is_comma_or_blank c = (c = CHR '','' \<or> c = CHR '' '')"

text \<open>
  \<open>normalize_address\<close>. The argument is a \<open>str\<close>, for which \<open>addr or ""\<close> is \<open>addr\<close>.
\<close>

definition normalize_address :: "string \<Rightarrow> string" where
  "normalize_address addr =
     (let a = strip addr;
          a = re_sub False POSTCODE_RE '''' None a;
          a = apply_abbr ABBR_MAP a;
          a = re_sub False (seq [AtLeast Space 0, Lit '','', AtLeast Space 0]) '', '' None a;
          a = strip (strip_of is_comma_or_blank (re_sub False (AtLeast Space 2) '' '' None a));
          a = (if \<not> contains ''bali'' (lower a) then a @ '', Bali'' else a);
          a = (if \<not> contains ''indonesia'' (lower a) then a @ '', Indonesia'' else a)
      in a)"

text \<open>\<open>clean_instagram\<close>: the pattern is \<open>/+$\<close>.\<close>

definition clean_instagram :: "string option \<Rightarrow> string option" where
  "clean_instagram handle =
     (if \<not> truthy handle then None
      else
        let h = strip (or_empty handle);
            h = (if prefix ''@'' h then drop 1 h else h);
            h = re_sub False (seq [AtLeast (Only (CHR ''/'')) 1, Eos]) '''' None h
        in if h = [] then None else Some h)"

text \<open>\<open>resolve_website\<close>: \<open>re.match\<close> tries the pattern \<open>^https?://\<close> at the start only.\<close>

definition resolve_website :: "string option \<Rightarrow> string option" where
  "resolve_website insta_link =
     (if \<not> truthy insta_link then None
      else
        let u = strip (or_empty insta_link)
        in if match_at True (seq [Bos, Lit ''http'', Opt (Lit ''s''), Lit ''://'']) None u \<noteq> None
           then Some u else None)"


section \<open>Geocoding\<close>

text \<open>
  A geocoding result is the dictionary \<open>{"lat": ..., "lon": ...}\<close>. The two floats are
  only stored and compared for equality; they are modelled as reals.
\<close>

record location =
  lat :: real
  lon :: real

text \<open>
  The geocode cache: a dictionary from address text to a result, as the cache file
  holds it.
\<close>

type_synonym cache = "string \<rightharpoonup> location"

text \<open>
  The lookup service is the callable \<open>geocode\<close> handed to \<open>geocode_bali\<close>. It answers
  with a place or with nothing, and the same query may be answered differently the next
  time: \<open>'g\<close> is the state of the service, threaded through the calls. The bounding
  box, the country code and the other fixed keyword arguments are part of the service.
  The pause after an attempt that found nothing takes time and changes nothing else.
\<close>

type_synonym 'g geocoder = "'g \<Rightarrow> string \<Rightarrow> location option \<times> 'g"

text \<open>
  The candidate strings of \<open>geocode_bali\<close>, in the order they are tried. \<open>split\<close>
  never returns an empty list, so \<open>[0]\<close> is its head.
\<close>

definition address_parts :: "string \<Rightarrow> string list" where
  "address_parts a = filter (\<lambda>p. p \<noteq> []) (map strip (split_on (CHR '','') a))"

definition candidates :: "string \<Rightarrow> string list" where
  "candidates raw_address =
     (let norm_a = normalize_address raw_address;
          cands = [norm_a];
          parts = address_parts norm_a;
          cands =
            (if 2 \<le> length parts
             then let c1 = join '', '' (take 2 parts)
                  in if lower c1 \<noteq> lower norm_a then cands @ [c1] else cands
             else cands);
          name_only =
            (case parts of
               p # _ \<Rightarrow> p
             | [] \<Rightarrow> (case split_on (CHR '','') raw_address of s # _ \<Rightarrow> s | [] \<Rightarrow> []));
          c2 = name_only @ '', Bali, Indonesia''
      in if lower c2 \<notin> set (map lower cands) then cands @ [c2] else cands)"

text \<open>The inner loop: \<open>for _ in range(tries)\<close> on one candidate.\<close>

fun attempts :: "'g geocoder \<Rightarrow> 'g \<Rightarrow> string \<Rightarrow> nat \<Rightarrow> location option \<times> 'g" where
  "attempts geocode g cand 0 = (None, g)"
| "attempts geocode g cand (Suc n) =
     (case geocode g cand of
        (Some loc, g') \<Rightarrow> (Some loc, g')
      | (None, g') \<Rightarrow> attempts geocode g' cand n)"

text \<open>The outer loop: \<open>for cand in candidates\<close>, returning at the first answer.\<close>

fun lookup :: "'g geocoder \<Rightarrow> 'g \<Rightarrow> string list \<Rightarrow> nat \<Rightarrow> location option \<times> 'g" where
  "lookup geocode g [] tries = (None, g)"
| "lookup geocode g (cand # rest) tries =
     (case attempts geocode g cand tries of
        (Some loc, g') \<Rightarrow> (Some loc, g')
      | (None, g') \<Rightarrow> lookup geocode g' rest tries)"

text \<open>
  \<open>geocode_bali\<close> returns the result together with the cache and the state of the
  service as it leaves them.
\<close>

definition geocode_bali ::
  "'g geocoder \<Rightarrow> cache \<Rightarrow> string \<Rightarrow> nat \<Rightarrow> 'g \<Rightarrow> location option \<times> cache \<times> 'g" where
  "geocode_bali geocode cache raw_address tries g =
     (let key = strip raw_address
      in case cache key of
           Some res \<Rightarrow> (Some res, cache, g)
         | None \<Rightarrow>
             (case lookup geocode g (candidates raw_address) tries of
                (Some res, g') \<Rightarrow> (Some res, cache(key \<mapsto> res), g')
              | (None, g') \<Rightarrow> (None, cache, g')))"


section \<open>The importer\<close>

text \<open>
  The table \<open>venues\<close>. \<open>name\<close> is unique and is the only column the importer searches
  by, so the table is a map from the name to the other columns; \<open>id\<close> is never read.
\<close>

record venue =
  address :: "string option"
  district :: "string option"
  venue_lat :: real
  venue_lon :: real
  instagram :: "string option"
  website :: "string option"
  venue_notes :: "string option"

text \<open>
  Modelled from the spec: the session of \<open>database.py\<close>, which is not part of the
  sources. The importer needs find-by-name, insert, update of fields, commit and
  rollback; a query sees the inserts and updates made earlier in the same run, and the
  match on the name is exact.
\<close>

type_synonym store = "string \<rightharpoonup> venue"

text \<open>A row of \<open>csv.DictReader\<close>: \<open>row.get(k)\<close> is \<open>row k\<close>.\<close>

type_synonym row = "string \<rightharpoonup> string"

datatype outcome = Created | Updated | Skipped | Failed

record counters =
  created :: nat
  updated :: nat
  skipped :: nat
  failed :: nat

text \<open>What a run holds while it loops: the session, the cache and the service.\<close>

record 'g session =
  db :: store
  cache_of :: cache
  geo :: 'g

text \<open>The branch \<open>if existing:\<close> with its flag \<open>changed\<close>.\<close>

definition reconcile ::
  "venue \<Rightarrow> string \<Rightarrow> location \<Rightarrow> string option \<Rightarrow> string option \<Rightarrow> venue \<times> bool" where
  "reconcile existing addr loc insta_name site =
     (let changed = False;
          (existing, changed) =
            (if address existing \<noteq> Some addr
             then (existing\<lparr>address := Some addr\<rparr>, True) else (existing, changed));
          (existing, changed) =
            (if venue_lat existing \<noteq> lat loc \<or> venue_lon existing \<noteq> lon loc
             then (existing\<lparr>venue_lat := lat loc, venue_lon := lon loc\<rparr>, True)
             else (existing, changed));
          (existing, changed) =
            (if instagram existing \<noteq> insta_name
             then (existing\<lparr>instagram := insta_name\<rparr>, True) else (existing, changed));
          (existing, changed) =
            (if truthy site \<and> website existing \<noteq> site
             then (existing\<lparr>website := site\<rparr>, True) else (existing, changed))
      in (existing, changed))"

text \<open>\<open>a or b\<close> on optional strings.\<close>

definition or_else :: "string option \<Rightarrow> string option \<Rightarrow> string option" where
  "or_else a b = (if truthy a then a else b)"

text \<open>The body of \<open>for row in reader\<close>, with the counter it increments.\<close>

definition import_row :: "'g geocoder \<Rightarrow> 'g session \<Rightarrow> row \<Rightarrow> outcome \<times> 'g session" where
  "import_row geocode s row =
     (let name = strip (or_empty (row ''Venue''));
          addr = strip (or_empty (row ''Address / Notes''));
          insta_name = clean_instagram (row ''Instagram name'');
          insta_link = strip (or_empty (or_else (row '' Instgram link'') (row ''Instgram link'')))
      in if name = [] \<or> addr = [] then (Skipped, s)
         else
           (case geocode_bali geocode (cache_of s) addr 2 (geo s) of
              (None, c', g') \<Rightarrow> (Failed, s\<lparr>cache_of := c', geo := g'\<rparr>)
            | (Some loc, c', g') \<Rightarrow>
                let site = resolve_website (Some insta_link)
                in (case db s name of
                      Some existing \<Rightarrow>
                        let (existing', changed) = reconcile existing addr loc insta_name site
                        in (if changed then Updated else Skipped,
                            s\<lparr>db := (db s)(name \<mapsto> existing'), cache_of := c', geo := g'\<rparr>)
                    | None \<Rightarrow>
                        (Created,
                         s\<lparr>db := (db s)(name \<mapsto>
                                 \<lparr>address = Some addr, district = None,
                                  venue_lat = lat loc, venue_lon = lon loc,
                                  instagram = insta_name, website = site, venue_notes = None\<rparr>),
                            cache_of := c', geo := g'\<rparr>))))"

fun tally :: "outcome \<Rightarrow> counters \<Rightarrow> counters" where
  "tally Created n = n\<lparr>created := created n + 1\<rparr>"
| "tally Updated n = n\<lparr>updated := updated n + 1\<rparr>"
| "tally Skipped n = n\<lparr>skipped := skipped n + 1\<rparr>"
| "tally Failed n = n\<lparr>failed := failed n + 1\<rparr>"

text \<open>The loop \<open>for row in reader\<close>.\<close>

fun import_rows ::
  "'g geocoder \<Rightarrow> 'g session \<Rightarrow> counters \<Rightarrow> row list \<Rightarrow> 'g session \<times> counters" where
  "import_rows geocode s n [] = (s, n)"
| "import_rows geocode s n (row # rest) =
     (case import_row geocode s row of
        (out, s') \<Rightarrow> import_rows geocode s' (tally out n) rest)"

text \<open>The outcome of every row of the loop, in order.\<close>

fun outcomes :: "'g geocoder \<Rightarrow> 'g session \<Rightarrow> row list \<Rightarrow> outcome list" where
  "outcomes geocode s [] = []"
| "outcomes geocode s (row # rest) =
     (case import_row geocode s row of
        (out, s') \<Rightarrow> out # outcomes geocode s' rest)"

text \<open>The header check of \<open>main\<close>: the column that makes it exit, if any.\<close>

definition wanted_columns :: "string list \<Rightarrow> string list" where
  "wanted_columns headers =
     (let wanted = [''Venue'', ''Address / Notes'', ''Instagram name'', '' Instgram link'']
      in if ''Instgram link'' \<in> set headers \<and> '' Instgram link'' \<notin> set headers
         then wanted[3 := ''Instgram link''] else wanted)"

definition missing_column :: "string list \<Rightarrow> string option" where
  "missing_column headers = find (\<lambda>w. w \<notin> set headers) (wanted_columns headers)"

text \<open>
  What \<open>main\<close> finds: the CSV file (\<open>None\<close> when the path does not exist) with the
  field names of its header and its rows, the cache file (\<open>None\<close> when it is missing
  or cannot be read as JSON), whether the cache file can be written, the committed
  table, and the service.
\<close>

record csv_file =
  fieldnames :: "string list"
  records :: "row list"

record 'g world =
  csv :: "csv_file option"
  cache_file :: "cache option"
  cache_writable :: bool
  table :: store
  service :: 'g

datatype exit_error = CsvNotFound | HeaderMissing string

fun exit_code :: "exit_error \<Rightarrow> nat" where
  "exit_code CsvNotFound = 1"
| "exit_code (HeaderMissing w) = 2"

text \<open>What \<open>main\<close> leaves behind on exit code 0: the world and the printed counters.\<close>

record 'g result =
  after :: "'g world"
  report :: counters

definition main :: "bool \<Rightarrow> 'g geocoder \<Rightarrow> 'g world \<Rightarrow> exit_error + 'g result" where
  "main dry_run geocode w =
     (case csv w of
        None \<Rightarrow> Inl CsvNotFound
      | Some f \<Rightarrow>
          let cache = (case cache_file w of None \<Rightarrow> Map.empty | Some c \<Rightarrow> c);
              headers = map strip (fieldnames f)
          in (case missing_column headers of
                Some col \<Rightarrow> Inl (HeaderMissing col)
              | None \<Rightarrow>
                  let (s, n) =
                        import_rows geocode \<lparr>db = table w, cache_of = cache, geo = service w\<rparr>
                          \<lparr>created = 0, updated = 0, skipped = 0, failed = 0\<rparr> (records f);
                      file' = (if cache_writable w then Some (cache_of s) else cache_file w)
                  in Inr \<lparr>after = w\<lparr>cache_file := file',
                                    table := (if dry_run then table w else db s),
                                    service := geo s\<rparr>,
                          report = n\<rparr>))"



section \<open>Notions used to state the properties\<close>

text \<open>The last two steps of \<open>normalize_address\<close>.\<close>

definition with_region :: "string \<Rightarrow> string" where
  "with_region a = (if \<not> contains ''bali'' (lower a) then a @ '', Bali'' else a)"

definition with_country :: "string \<Rightarrow> string" where
  "with_country a = (if \<not> contains ''indonesia'' (lower a) then a @ '', Indonesia'' else a)"

text \<open>The fields \<open>main\<close> reads from a row, and its test that skips a row.\<close>

definition row_name :: "row \<Rightarrow> string" where
  "row_name row = strip (or_empty (row ''Venue''))"

definition row_address :: "row \<Rightarrow> string" where
  "row_address row = strip (or_empty (row ''Address / Notes''))"

definition row_instagram :: "row \<Rightarrow> string option" where
  "row_instagram row = clean_instagram (row ''Instagram name'')"

text \<open>The link text of a row: \<open>insta_link\<close> of \<open>main\<close>.\<close>

definition row_link :: "row \<Rightarrow> string" where
  "row_link row = strip (or_empty (or_else (row '' Instgram link'') (row ''Instgram link'')))"

definition row_website :: "row \<Rightarrow> string option" where
  "row_website row = resolve_website (Some (row_link row))"

definition row_blank :: "row \<Rightarrow> bool" where
  "row_blank row = (row_name row = [] \<or> row_address row = [])"

text \<open>A text begins with \<open>http://\<close> or \<open>https://\<close>, in any letter case.\<close>

definition has_scheme :: "string \<Rightarrow> bool" where
  "has_scheme u = (prefix ''http://'' (lower u) \<or> prefix ''https://'' (lower u))"

text \<open>The columns a header must name, as the header check compares them.\<close>

definition required_columns :: "string list" where
  "required_columns = [''Venue'', ''Address / Notes'', ''Instagram name'', ''Instgram link'']"

text \<open>The exit code of \<open>main\<close>: 0 when it runs to its end.\<close>

definition exit_status :: "exit_error + 'a \<Rightarrow> nat" where
  "exit_status r = (case r of Inl e \<Rightarrow> exit_code e | Inr _ \<Rightarrow> 0)"

text \<open>The session and the counters the loop of \<open>main\<close> starts with.\<close>

definition session_start :: "'g world \<Rightarrow> 'g session" where
  "session_start w =
     \<lparr>db = table w,
      cache_of = (case cache_file w of None \<Rightarrow> Map.empty | Some c \<Rightarrow> c),
      geo = service w\<rparr>"

definition no_counts :: counters where
  "no_counts = \<lparr>created = 0, updated = 0, skipped = 0, failed = 0\<rparr>"

text \<open>The queries the lookup loops may send, in order: every candidate \<open>tries\<close> times.\<close>

definition attempt_queries :: "string list \<Rightarrow> nat \<Rightarrow> string list" where
  "attempt_queries cands tries = concat (map (replicate tries) cands)"

text \<open>The answers of the service to queries sent one after the other, and its state then.\<close>

fun answers :: "'g geocoder \<Rightarrow> 'g \<Rightarrow> string list \<Rightarrow> location option list" where
  "answers geocode g [] = []"
| "answers geocode g (q # qs) = (case geocode g q of (r, g') \<Rightarrow> r # answers geocode g' qs)"

fun state_after :: "'g geocoder \<Rightarrow> 'g \<Rightarrow> string list \<Rightarrow> 'g" where
  "state_after geocode g [] = g"
| "state_after geocode g (q # qs) = state_after geocode (snd (geocode g q)) qs"

text \<open>The first answer that is a place.\<close>

fun first_found :: "location option list \<Rightarrow> location option" where
  "first_found [] = None"
| "first_found (None # rs) = first_found rs"
| "first_found (Some loc # rs) = Some loc"

text \<open>The number of commas in a text.\<close>

definition commas :: "string \<Rightarrow> nat" where
  "commas s = length (filter (\<lambda>c. c = CHR '','') s)"

text \<open>
  A row is settled in a table and a cache when the importer would skip it and change
  nothing: it is blank, or its address is cached and the venue of its name is stored
  with nothing to reconcile.
\<close>

definition settled :: "store \<Rightarrow> cache \<Rightarrow> row \<Rightarrow> bool" where
  "settled st c row =
     (row_blank row \<or>
      (case c (strip (row_address row)) of
         None \<Rightarrow> False
       | Some loc \<Rightarrow>
           (case st (row_name row) of
              None \<Rightarrow> False
            | Some e \<Rightarrow>
                \<not> snd (reconcile e (row_address row) loc (row_instagram row) (row_website row)))))"

text \<open>No two rows that pass the blank test share a venue name.\<close>

definition distinct_names :: "row list \<Rightarrow> bool" where
  "distinct_names rows = distinct (map row_name (filter (\<lambda>r. \<not> row_blank r) rows))"

text \<open>The session a second run starts with: table and cache of the first, any service.\<close>

definition next_run :: "'g session \<Rightarrow> 'h \<Rightarrow> 'h session" where
  "next_run s g = \<lparr>db = db s, cache_of = cache_of s, geo = g\<rparr>"


section \<open>Sample inputs\<close>

text \<open>A place.\<close>

definition sample_loc :: location where
  "sample_loc = \<lparr>lat = - 8, lon = 115\<rparr>"

text \<open>Services: one that never finds a place, one that always answers with the same
  place, and one that finds nothing three times and then answers.\<close>

definition never_found :: "unit geocoder" where
  "never_found g q = (None, g)"

definition found_at :: "location \<Rightarrow> unit geocoder" where
  "found_at loc g q = (Some loc, g)"

definition flaky :: "nat geocoder" where
  "flaky n q = (if 3 \<le> n then Some sample_loc else None, Suc n)"

text \<open>A row, a stored venue that differs from the row in its longitude and its handle, and
  sessions and worlds around them.\<close>

definition sample_row :: row where
  "sample_row = [''Venue'' \<mapsto> ''A'', ''Address / Notes'' \<mapsto> ''x'']"

definition row_of :: "string \<Rightarrow> string \<Rightarrow> row" where
  "row_of name addr = [''Venue'' \<mapsto> name, ''Address / Notes'' \<mapsto> addr]"

definition sample_venue :: venue where
  "sample_venue =
     \<lparr>address = Some ''x'', district = None, venue_lat = - 8, venue_lon = 114,
      instagram = Some ''old'', website = Some ''http://a'', venue_notes = None\<rparr>"

definition sample_session :: "unit session" where
  "sample_session = \<lparr>db = [''A'' \<mapsto> sample_venue], cache_of = [''x'' \<mapsto> sample_loc], geo = ()\<rparr>"

definition fresh :: "unit session" where
  "fresh = \<lparr>db = Map.empty, cache_of = Map.empty, geo = ()\<rparr>"

definition sample_world :: "string list \<Rightarrow> unit world" where
  "sample_world names =
     \<lparr>csv = Some \<lparr>fieldnames = names, records = [sample_row]\<rparr>,
      cache_file = Some [''x'' \<mapsto> sample_loc], cache_writable = True,
      table = Map.empty, service = ()\<rparr>"


section \<open>Facts about text\<close>

lemma contains_iff_sublist: "contains sub s \<longleftrightarrow> sublist sub s"
  by (induction s) (auto simp: sublist_Cons_right)

lemma contains_appendI: "contains sub s \<Longrightarrow> contains sub (s @ t)"
  by (auto simp: contains_iff_sublist sublist_append)

lemma contains_suffix: "contains sub (p @ q @ sub)"
  unfolding contains_iff_sublist sublist_def by (rule exI[of _ "p @ q"], rule exI[of _ "[]"]) simp

lemma contains_char: "contains (c # w) s \<Longrightarrow> c \<in> set s"
  by (auto simp: contains_iff_sublist sublist_def)

lemma lower_append: "lower (a @ b) = lower a @ lower b"
  by (simp add: lower_def)

lemma lower_take: "lower (take n s) = take n (lower s)"
  by (simp add: lower_def take_map)

lemma lower_drop: "lower (drop n s) = drop n (lower s)"
  by (simp add: lower_def drop_map)

lemma length_lower: "length (lower s) = length s"
  by (simp add: lower_def)

lemma dropWhile_all_iff: "(\<forall>c \<in> set (dropWhile P s). P c) \<longleftrightarrow> dropWhile P s = []"
proof
  assume a: "\<forall>c \<in> set (dropWhile P s). P c"
  show "dropWhile P s = []"
  proof (rule ccontr)
    assume n: "dropWhile P s \<noteq> []"
    then have "\<not> P (hd (dropWhile P s))" by (rule hd_dropWhile)
    moreover have "hd (dropWhile P s) \<in> set (dropWhile P s)" using n by simp
    ultimately show False using a by blast
  qed
next
  assume e: "dropWhile P s = []"
  show "\<forall>c \<in> set (dropWhile P s). P c" unfolding e by simp
qed

lemma dropWhile_id: "s \<noteq> [] \<Longrightarrow> \<not> P (hd s) \<Longrightarrow> dropWhile P s = s"
  by (cases s) auto

lemma strip_of_empty_iff: "strip_of P s = [] \<longleftrightarrow> (\<forall>c \<in> set s. P c)"
proof -
  have "strip_of P s = [] \<longleftrightarrow> (\<forall>c \<in> set (dropWhile P s). P c)"
    by (simp add: strip_of_def dropWhile_eq_Nil_conv)
  also have "\<dots> \<longleftrightarrow> dropWhile P s = []"
    by (rule dropWhile_all_iff)
  also have "\<dots> \<longleftrightarrow> (\<forall>c \<in> set s. P c)"
    by (simp add: dropWhile_eq_Nil_conv)
  finally show ?thesis .
qed

lemma strip_of_head: "strip_of P s = c # t \<Longrightarrow> \<not> P c"
proof -
  assume a: "strip_of P s = c # t"
  let ?d = "dropWhile P s"
  have "dropWhile P (rev ?d) = rev (c # t)" using a by (simp add: strip_of_def rev_swap)
  then have "rev ?d = takeWhile P (rev ?d) @ rev t @ [c]"
    by (metis takeWhile_dropWhile_id rev.simps(2))
  then have "?d = c # (t @ rev (takeWhile P (rev ?d)))"
    by (metis rev_append rev_rev_ident rev.simps(2) append_Cons append_Nil rev_swap)
  then show ?thesis using hd_dropWhile[of P s] by (metis list.sel(1) list.distinct(1))
qed

lemma strip_of_last: "strip_of P s \<noteq> [] \<Longrightarrow> \<not> P (last (strip_of P s))"
proof -
  assume n: "strip_of P s \<noteq> []"
  let ?x = "dropWhile P (rev (dropWhile P s))"
  have "?x \<noteq> []" using n by (simp add: strip_of_def)
  then have "\<not> P (hd ?x)" by (rule hd_dropWhile)
  moreover have "last (strip_of P s) = hd ?x"
    using \<open>?x \<noteq> []\<close> by (simp add: strip_of_def last_rev)
  ultimately show ?thesis by simp
qed

lemma strip_of_idem: "strip_of P (strip_of P s) = strip_of P s"
proof (cases "strip_of P s")
  case Nil
  show ?thesis unfolding Nil by (simp add: strip_of_def)
next
  case (Cons c t)
  let ?t = "strip_of P s"
  have h: "\<not> P (hd ?t)" using Cons strip_of_head[of P s c t] by simp
  have l: "\<not> P (last ?t)" using Cons strip_of_last[of P s] by simp
  have ne: "?t \<noteq> []" using Cons by simp
  have 1: "dropWhile P ?t = ?t" using ne h by (rule dropWhile_id)
  have 2: "dropWhile P (rev ?t) = rev ?t"
    using ne l by (intro dropWhile_id) (simp_all add: hd_rev)
  show ?thesis
    unfolding strip_of_def[of P "strip_of P s"] 1 2 by simp
qed

lemma strip_idem: "strip (strip s) = strip s"
  by (simp add: strip_def strip_of_idem)

lemma strip_empty_iff: "strip s = [] \<longleftrightarrow> (\<forall>c \<in> set s. is_space c)"
  by (simp add: strip_def strip_of_empty_iff)

lemma set_strip_of: "set (strip_of P s) \<subseteq> set s"
proof -
  have "set (strip_of P s) \<subseteq> set (dropWhile P s)"
    unfolding strip_of_def using set_dropWhileD[of _ P "rev (dropWhile P s)"] by auto
  then show ?thesis using set_dropWhileD[of _ P s] by auto
qed

lemma strip_not_leading_space: "strip s \<noteq> CHR '' '' # t"
proof
  assume "strip s = CHR '' '' # t"
  then have "\<not> is_space (CHR '' '')" unfolding strip_def by (rule strip_of_head)
  then show False by (simp add: is_space_def)
qed

lemma prefix_iff_take: "prefix p s \<longleftrightarrow> length p \<le> length s \<and> take (length p) s = p"
  by (metis prefix_def append_take_drop_id append_eq_conv_conj length_append le_add1 take_is_prefix prefix_length_le)

lemma prefix_append_iff:
  "prefix (a @ b) s \<longleftrightarrow> prefix a s \<and> prefix b (drop (length a) s)"
  by (metis append_eq_conv_conj prefix_def append_assoc)

lemma split_on_not_Nil: "split_on sep s \<noteq> []"
  by (induction s) (auto split: list.splits)

lemma split_on_chars: "c \<in> set s \<Longrightarrow> c \<noteq> sep \<Longrightarrow> \<exists>p \<in> set (split_on sep s). c \<in> set p"
  by (induction s) (auto split: list.splits)

lemma split_on_no_sep: "p \<in> set (split_on sep s) \<Longrightarrow> sep \<notin> set p"
  by (induction s arbitrary: p) (auto split: list.splits if_splits)

lemma length_split_on: "length (split_on sep s) = Suc (length (filter (\<lambda>c. c = sep) s))"
  by (induction s) (auto split: list.splits)

lemma is_space_lower: "is_space c \<Longrightarrow> lower_char c = c"
  by (auto simp: is_space_def lower_char_def Let_def)

lemma lower_char_comma_iff: "lower_char c = CHR '','' \<longleftrightarrow> c = CHR '',''"
proof
  assume a: "lower_char c = CHR '',''"
  show "c = CHR '',''"
  proof (cases "lower_char c = c")
    case True
    then show ?thesis using a by simp
  next
    case False
    then have u: "(65 \<le> (of_char c :: nat) \<and> (of_char c :: nat) \<le> 90)
                \<or> (192 \<le> (of_char c :: nat) \<and> (of_char c :: nat) \<le> 222)"
      and l: "lower_char c = char_of ((of_char c :: nat) + 32)"
      by (auto simp: lower_char_def Let_def split: if_splits)
    have "(of_char (lower_char c) :: nat) = (of_char c + 32) mod 256"
      unfolding l by simp
    moreover have "(of_char (CHR '','') :: nat) = 44" by simp
    ultimately have m: "((of_char c :: nat) + 32) mod 256 = 44" using a by simp
    have "(of_char c :: nat) + 32 < 256" using u by linarith
    then have "((of_char c :: nat) + 32) mod 256 = of_char c + 32" by (rule mod_less)
    then have "(of_char c :: nat) + 32 = 44" using m by simp
    then show ?thesis using u by linarith
  qed
next
  assume "c = CHR '',''"
  then show "lower_char c = CHR '',''" by (simp add: lower_char_def)
qed

lemma commas_lower: "commas (lower s) = commas s"
  by (induction s) (auto simp: commas_def lower_def lower_char_comma_iff)

lemma commas_append: "commas (a @ b) = commas a + commas b"
  by (simp add: commas_def)


section \<open>Normalizing an address\<close>

lemma lower_bali: "lower '', Bali'' = '', bali''"
  by code_simp

lemma lower_indonesia: "lower '', Indonesia'' = '', indonesia''"
  by code_simp

lemma ensure_bali: "contains ''bali'' (lower (a @ '', Bali''))"
  using contains_suffix[of "''bali''" "lower a" "'', ''"] by (simp add: lower_append lower_bali)

lemma ensure_indonesia: "contains ''indonesia'' (lower (a @ '', Indonesia''))"
  using contains_suffix[of "''indonesia''" "lower a" "'', ''"] by (simp add: lower_append lower_indonesia)

lemma with_region_has: "contains ''bali'' (lower (with_region a))"
  using ensure_bali by (simp add: with_region_def)

lemma with_country_has: "contains ''indonesia'' (lower (with_country a))"
  using ensure_indonesia by (simp add: with_country_def)

lemma with_country_keeps: "contains sub (lower a) \<Longrightarrow> contains sub (lower (with_country a))"
  by (simp add: with_country_def lower_append contains_appendI)

lemma normalize_address_tail:
  "\<exists>a. normalize_address addr = with_country (with_region a)"
  unfolding normalize_address_def Let_def with_country_def with_region_def by blast

lemma normalize_address_region:
  "contains ''bali'' (lower (normalize_address addr))"
  using normalize_address_tail[of addr] with_country_keeps with_region_has by auto

lemma normalize_address_country:
  "contains ''indonesia'' (lower (normalize_address addr))"
  using normalize_address_tail[of addr] with_country_has by auto

lemma normalize_address_sample:
  "normalize_address ''Jl. Tibung Sari, Denpasar, 80222''
     = ''Jalan. Tibung Sari, Denpasar, Bali, Indonesia''"
  by code_simp

text \<open>
  C5. \<open>normalize_address\<close> on the address "Jl. Tibung Sari, Denpasar, 80222": the
  postal code goes, region and country are appended, but the dot of "Jl." stays, because
  the closing \<open>\b\<close> of the pattern cannot match between the dot and the blank. The
  result does not contain "Jalan Tibung Sari, Denpasar".
\<close>

theorem normalize_address_example:
  "normalize_address ''Jl. Tibung Sari, Denpasar, 80222''
     = ''Jalan. Tibung Sari, Denpasar, Bali, Indonesia''
   \<and> \<not> contains ''Jalan Tibung Sari, Denpasar''
         (normalize_address ''Jl. Tibung Sari, Denpasar, 80222'')"
proof -
  have c: "\<not> contains ''Jalan Tibung Sari, Denpasar''
               ''Jalan. Tibung Sari, Denpasar, Bali, Indonesia''"
    by code_simp
  show ?thesis unfolding normalize_address_sample by (rule conjI[OF refl c])
qed


section \<open>The candidates\<close>

lemma address_parts_nonempty:
  assumes "c \<in> set a" and "c \<noteq> CHR '',''" and "\<not> is_space c"
  shows "address_parts a \<noteq> []"
proof -
  obtain p where p: "p \<in> set (split_on (CHR '','') a)" "c \<in> set p"
    using split_on_chars[OF assms(1,2)] by blast
  have "strip p \<noteq> []" using p(2) assms(3) by (auto simp: strip_empty_iff)
  then have "strip p \<in> set (address_parts a)" using p(1) by (auto simp: address_parts_def)
  then show ?thesis by auto
qed

lemma address_parts_no_comma: "p \<in> set (address_parts a) \<Longrightarrow> commas p = 0"
proof -
  assume "p \<in> set (address_parts a)"
  then obtain q where q: "q \<in> set (split_on (CHR '','') a)" "p = strip q"
    by (auto simp: address_parts_def)
  have "CHR '','' \<notin> set p"
    using split_on_no_sep[OF q(1)] set_strip_of[of is_space q] q(2) by (auto simp: strip_def)
  then show ?thesis by (auto simp: commas_def filter_empty_conv)
qed

lemma length_address_parts: "length (address_parts a) \<le> Suc (commas a)"
proof -
  have "length (address_parts a) \<le> length (split_on (CHR '','') a)"
    unfolding address_parts_def by (metis length_filter_le length_map)
  then show ?thesis by (simp add: length_split_on commas_def)
qed

lemma normalize_address_parts: "address_parts (normalize_address raw) \<noteq> []"
proof -
  have "CHR ''b'' \<in> set (lower (normalize_address raw))"
    using normalize_address_region[of raw] contains_char[of "CHR ''b''" "''ali''"] by simp
  then obtain c where c: "c \<in> set (normalize_address raw)" "lower_char c = CHR ''b''"
    by (auto simp: lower_def)
  have "\<not> is_space (CHR ''b'')" by (simp add: is_space_def)
  then have "\<not> is_space c" using c(2) is_space_lower[of c] by auto
  moreover have "c \<noteq> CHR '',''" using c(2) lower_char_comma_iff[of c] by auto
  ultimately show ?thesis using address_parts_nonempty[OF c(1)] by blast
qed

lemma three_parts_differ:
  assumes "3 \<le> length (address_parts a)"
  shows "lower (join '', '' (take 2 (address_parts a))) \<noteq> lower a"
proof -
  obtain p q rest where ps: "address_parts a = p # q # rest"
    using assms by (cases "address_parts a"; cases "tl (address_parts a)") auto
  have "commas p = 0" "commas q = 0"
    using address_parts_no_comma[of p a] address_parts_no_comma[of q a] ps by auto
  then have one: "commas (join '', '' (take 2 (address_parts a))) = 1"
    by (simp add: ps commas_append) (simp add: commas_def)
  have two: "2 \<le> commas a" using assms length_address_parts[of a] by simp
  show ?thesis
  proof
    assume "lower (join '', '' (take 2 (address_parts a))) = lower a"
    then have "commas (lower (join '', '' (take 2 (address_parts a)))) = commas (lower a)"
      by simp
    then show False using one two by (simp add: commas_lower)
  qed
qed

lemma candidates_shape_aux:
  assumes a: "a = normalize_address raw"
    and parts: "parts = address_parts a"
    and c1: "c1 = join '', '' (take 2 parts)"
    and c2: "c2 = hd parts @ '', Bali, Indonesia''"
    and before: "before = [a] @ (if 2 \<le> length parts \<and> lower c1 \<noteq> lower a then [c1] else [])"
  shows "parts \<noteq> []
       \<and> candidates raw = before @ (if lower c2 \<in> set (map lower before) then [] else [c2])
       \<and> (3 \<le> length parts \<longrightarrow> lower c1 \<noteq> lower a)
       \<and> length (candidates raw) \<le> 3
       \<and> distinct (map lower (candidates raw))"
proof -
  have ne: "parts \<noteq> []" unfolding parts a by (rule normalize_address_parts)
  then obtain p ps where pp: "address_parts (normalize_address raw) = p # ps"
    unfolding parts a by (cases "address_parts (normalize_address raw)") auto
  have hd: "hd parts = p" unfolding parts a pp by simp
  have eq: "candidates raw = before @ (if lower c2 \<in> set (map lower before) then [] else [c2])"
    unfolding before c2 hd c1 parts a
    by (simp add: candidates_def Let_def pp)
  have three: "3 \<le> length parts \<longrightarrow> lower c1 \<noteq> lower a"
    unfolding c1 parts using three_parts_differ[of a] by blast
  have len: "length before \<le> 2" unfolding before by simp
  have d: "distinct (map lower before)" unfolding before by auto
  have "length (candidates raw) \<le> 3" unfolding eq using len by simp
  moreover have "distinct (map lower (candidates raw))" unfolding eq using d by simp
  ultimately show ?thesis using ne eq three by blast
qed

text \<open>
  C4. The candidates of an address, with \<open>a\<close> its normalized form and \<open>parts\<close> the
  non-blank, trimmed pieces of \<open>a\<close> between commas (there is always one): first \<open>a\<close>;
  then the first two parts joined by ", ", if there are two parts and the join differs
  from \<open>a\<close> ignoring case (it always differs when there are three parts); then the first
  part followed by ", Bali, Indonesia", if that differs, ignoring case, from the
  candidates before it. So there are at most three, no two equal ignoring case.
\<close>

theorem candidates_shape:
  "(let a = normalize_address raw;
        parts = address_parts a;
        c1 = join '', '' (take 2 parts);
        c2 = hd parts @ '', Bali, Indonesia'';
        before = [a] @ (if 2 \<le> length parts \<and> lower c1 \<noteq> lower a then [c1] else [])
    in parts \<noteq> []
       \<and> candidates raw = before @ (if lower c2 \<in> set (map lower before) then [] else [c2])
       \<and> (3 \<le> length parts \<longrightarrow> lower c1 \<noteq> lower a)
       \<and> length (candidates raw) \<le> 3
       \<and> distinct (map lower (candidates raw)))"
  unfolding Let_def by (rule candidates_shape_aux[OF refl refl refl refl refl])

theorem candidates_shape_witness:
  "candidates ''Jl. Tibung Sari, Denpasar, 80222''
     = [''Jalan. Tibung Sari, Denpasar, Bali, Indonesia'',
        ''Jalan. Tibung Sari, Denpasar'',
        ''Jalan. Tibung Sari, Bali, Indonesia'']"
proof -
  note eq = candidates_shape[of "''Jl. Tibung Sari, Denpasar, 80222''", unfolded Let_def,
      THEN conjunct2, THEN conjunct1, unfolded normalize_address_sample]
  show ?thesis unfolding eq by code_simp
qed


section \<open>The lookup loops and the cache\<close>

lemma answers_append:
  "answers geocode g (xs @ ys) = answers geocode g xs @ answers geocode (state_after geocode g xs) ys"
  by (induction xs arbitrary: g) (auto split: prod.splits)

lemma first_found_append:
  "first_found (xs @ ys) = (case first_found xs of None \<Rightarrow> first_found ys | Some loc \<Rightarrow> Some loc)"
  by (induction xs rule: first_found.induct) auto

lemma first_found_None_iff: "first_found rs = None \<longleftrightarrow> (\<forall>r \<in> set rs. r = None)"
  by (induction rs rule: first_found.induct) auto

lemma first_found_Some:
  "first_found rs = Some loc \<Longrightarrow> \<exists>n < length rs. rs ! n = Some loc \<and> (\<forall>m < n. rs ! m = None)"
proof (induction rs rule: first_found.induct)
  case 1
  then show ?case by simp
next
  case (2 rs)
  then obtain n where n: "n < length rs" "rs ! n = Some loc" "\<forall>m < n. rs ! m = None" by auto
  have "\<forall>m < Suc n. (None # rs) ! m = None"
    using n(3) by (auto simp: nth_Cons split: nat.splits)
  then show ?case using n(1,2) by (intro exI[of _ "Suc n"]) simp
next
  case (3 l rs)
  then show ?case by (intro exI[of _ 0]) simp
qed

lemma attempts_fst:
  "fst (attempts geocode g cand n) = first_found (answers geocode g (replicate n cand))"
  by (induction n arbitrary: g) (auto split: prod.splits option.splits)

lemma attempts_None_state:
  "fst (attempts geocode g cand n) = None \<Longrightarrow>
     snd (attempts geocode g cand n) = state_after geocode g (replicate n cand)"
  by (induction n arbitrary: g) (auto split: prod.splits option.splits)

lemma lookup_fst:
  "fst (lookup geocode g cands tries)
     = first_found (answers geocode g (attempt_queries cands tries))"
proof (induction cands arbitrary: g)
  case Nil
  then show ?case by (simp add: attempt_queries_def)
next
  case (Cons c cs)
  show ?case
  proof (cases "fst (attempts geocode g c tries)")
    case None
    then have a: "attempts geocode g c tries = (None, state_after geocode g (replicate tries c))"
      using attempts_None_state[of geocode g c tries] by (simp add: prod_eq_iff)
    have f: "first_found (answers geocode g (replicate tries c)) = None"
      using None attempts_fst[of geocode g c tries] by simp
    show ?thesis
      using Cons[of "state_after geocode g (replicate tries c)"] a f
      by (simp add: attempt_queries_def answers_append first_found_append)
  next
    case (Some loc)
    then obtain g' where a: "attempts geocode g c tries = (Some loc, g')"
      by (cases "attempts geocode g c tries") auto
    have f: "first_found (answers geocode g (replicate tries c)) = Some loc"
      using Some attempts_fst[of geocode g c tries] by simp
    have "lookup geocode g (c # cs) tries = (Some loc, g')"
      by (simp add: a)
    then show ?thesis using f
      by (simp add: attempt_queries_def answers_append first_found_append)
  qed
qed

lemma lookup_never_found: "lookup never_found g cands tries = (None, g)"
proof -
  have a: "attempts never_found u c n = (None, u)" for u c n
    by (induction n) (auto simp: never_found_def)
  show ?thesis by (induction cands) (auto simp: a)
qed

lemma geocode_bali_hit:
  "cache (strip a) = Some res \<Longrightarrow> geocode_bali geocode cache a tries g = (Some res, cache, g)"
  by (simp add: geocode_bali_def)

lemma geocode_bali_miss:
  "cache (strip raw) = None \<Longrightarrow>
     fst (geocode_bali geocode cache raw tries g) = fst (lookup geocode g (candidates raw) tries)"
  by (simp add: geocode_bali_def split: prod.splits option.splits)

lemma geocode_bali_cache_cases:
  "fst (snd (geocode_bali geocode cache raw tries g)) =
     (case cache (strip raw) of
        Some res \<Rightarrow> cache
      | None \<Rightarrow> (case fst (geocode_bali geocode cache raw tries g) of
                   None \<Rightarrow> cache
                 | Some res \<Rightarrow> cache(strip raw \<mapsto> res)))"
  by (simp add: geocode_bali_def split: prod.splits option.splits)

lemma geocode_bali_keeps:
  "cache k = Some v \<Longrightarrow> fst (snd (geocode_bali geocode cache raw tries g)) k = Some v"
  unfolding geocode_bali_cache_cases by (auto split: option.splits)

lemma geocode_bali_result_cached:
  "fst (geocode_bali geocode cache raw tries g) = Some loc \<Longrightarrow>
     fst (snd (geocode_bali geocode cache raw tries g)) (strip raw) = Some loc"
  by (auto simp: geocode_bali_def Let_def split: option.splits prod.splits)

text \<open>
  C3. The lookup loops return the first place the service answers when it is asked each
  candidate in order, \<open>tries\<close> times each, and nothing exactly when every one of these
  attempts was answered with nothing. The result is a value in every case.
  \<open>geocode_bali\<close> returns what the loops return whenever the address is not in the cache.
\<close>

theorem lookup_first_success:
  "fst (lookup geocode g cands tries)
     = first_found (answers geocode g (attempt_queries cands tries))
   \<and> (fst (lookup geocode g cands tries) = None
        \<longleftrightarrow> (\<forall>r \<in> set (answers geocode g (attempt_queries cands tries)). r = None))
   \<and> (fst (lookup geocode g cands tries) = Some loc
        \<longrightarrow> (\<exists>n < length (attempt_queries cands tries).
               answers geocode g (attempt_queries cands tries) ! n = Some loc
               \<and> (\<forall>m < n. answers geocode g (attempt_queries cands tries) ! m = None)))
   \<and> (cache (strip raw) = None
        \<longrightarrow> fst (geocode_bali geocode cache raw tries g)
            = fst (lookup geocode g (candidates raw) tries))"
proof -
  have len: "length (answers geocode g qs) = length qs" for qs
    by (induction qs arbitrary: g) (auto split: prod.splits)
  show ?thesis
    using first_found_Some[of "answers geocode g (attempt_queries cands tries)" loc]
    by (simp add: lookup_fst first_found_None_iff geocode_bali_miss len)
qed

theorem lookup_first_success_witness:
  "answers flaky 0 (attempt_queries [''a'', ''b''] 2) = [None, None, None, Some sample_loc]
   \<and> fst (lookup flaky 0 [''a'', ''b''] 2) = Some sample_loc
   \<and> answers flaky 0 (attempt_queries [''a'', ''b''] 1) = [None, None]
   \<and> fst (lookup flaky 0 [''a'', ''b''] 1) = None"
proof -
  have 1: "answers flaky 0 (attempt_queries [''a'', ''b''] 2) = [None, None, None, Some sample_loc]"
    by code_simp
  have 2: "answers flaky 0 (attempt_queries [''a'', ''b''] 1) = [None, None]"
    by code_simp
  have a: "fst (lookup flaky 0 [''a'', ''b''] 2)
             = first_found (answers flaky 0 (attempt_queries [''a'', ''b''] 2))"
    by (rule lookup_first_success[of flaky 0 "[''a'', ''b'']" 2 sample_loc Map.empty "[]", THEN conjunct1])
  have b: "fst (lookup flaky 0 [''a'', ''b''] 1)
             = first_found (answers flaky 0 (attempt_queries [''a'', ''b''] 1))"
    by (rule lookup_first_success[of flaky 0 "[''a'', ''b'']" 1 sample_loc Map.empty "[]", THEN conjunct1])
  show ?thesis unfolding a b 1 2 by simp
qed


section \<open>One row\<close>

lemma import_row_blank: "row_blank row \<Longrightarrow> import_row geocode s row = (Skipped, s)"
  by (auto simp: import_row_def row_blank_def row_name_def row_address_def Let_def)

lemma import_row_failed:
  assumes "\<not> row_blank row"
    and "geocode_bali geocode (cache_of s) (row_address row) 2 (geo s) = (None, c', g')"
  shows "import_row geocode s row = (Failed, s\<lparr>cache_of := c', geo := g'\<rparr>)"
  using assms
  by (auto simp: import_row_def row_blank_def row_name_def row_address_def Let_def)

lemma import_row_existing:
  assumes "\<not> row_blank row"
    and "geocode_bali geocode (cache_of s) (row_address row) 2 (geo s) = (Some loc, c', g')"
    and "db s (row_name row) = Some e"
  shows "import_row geocode s row =
           (if snd (reconcile e (row_address row) loc (row_instagram row) (row_website row))
            then Updated else Skipped,
            s\<lparr>db := (db s)(row_name row \<mapsto>
                   fst (reconcile e (row_address row) loc (row_instagram row) (row_website row))),
              cache_of := c', geo := g'\<rparr>)"
  using assms
  by (auto simp: import_row_def row_blank_def row_name_def row_address_def row_instagram_def
      row_website_def row_link_def Let_def split: prod.splits)

lemma import_row_new:
  assumes "\<not> row_blank row"
    and "geocode_bali geocode (cache_of s) (row_address row) 2 (geo s) = (Some loc, c', g')"
    and "db s (row_name row) = None"
  shows "import_row geocode s row =
           (Created,
            s\<lparr>db := (db s)(row_name row \<mapsto>
                   \<lparr>address = Some (row_address row), district = None,
                    venue_lat = lat loc, venue_lon = lon loc,
                    instagram = row_instagram row, website = row_website row,
                    venue_notes = None\<rparr>),
              cache_of := c', geo := g'\<rparr>)"
  using assms
  by (auto simp: import_row_def row_blank_def row_name_def row_address_def row_instagram_def
      row_website_def row_link_def Let_def)

lemma import_row_cache:
  "cache_of (snd (import_row geocode s row))
     = (if row_blank row then cache_of s
        else fst (snd (geocode_bali geocode (cache_of s) (row_address row) 2 (geo s))))"
proof (cases "row_blank row")
  case True
  then show ?thesis by (simp add: import_row_blank)
next
  case False
  obtain r c' g' where g: "geocode_bali geocode (cache_of s) (row_address row) 2 (geo s) = (r, c', g')"
    by (cases "geocode_bali geocode (cache_of s) (row_address row) 2 (geo s)") auto
  show ?thesis
  proof (cases r)
    case None
    then show ?thesis using False g by (simp add: import_row_failed)
  next
    case (Some loc)
    show ?thesis
    proof (cases "db s (row_name row)")
      case None
      show ?thesis using False g Some import_row_new[OF False _ None, of geocode loc c' g'] by simp
    next
      case (Some e)
      show ?thesis using False g \<open>r = Some loc\<close>
          import_row_existing[OF False _ Some, of geocode loc c' g'] by simp
    qed
  qed
qed

lemma import_row_keeps_cache:
  "cache_of s k = Some v \<Longrightarrow> cache_of (snd (import_row geocode s row)) k = Some v"
  by (simp add: import_row_cache geocode_bali_keeps)

lemma import_rows_keeps_cache:
  "cache_of s k = Some v \<Longrightarrow> cache_of (fst (import_rows geocode s n rows)) k = Some v"
proof (induction rows arbitrary: s n)
  case Nil
  then show ?case by simp
next
  case (Cons row rows)
  obtain out s' where st: "import_row geocode s row = (out, s')"
    by (cases "import_row geocode s row") auto
  have "cache_of s' k = Some v"
    using import_row_keeps_cache[OF Cons.prems, of geocode row] st by simp
  then show ?case using Cons.IH[of s'] st by simp
qed

lemma import_row_db_other:
  assumes "row_blank row \<or> k \<noteq> row_name row"
  shows "db (snd (import_row geocode s row)) k = db s k"
proof (cases "row_blank row")
  case True
  then show ?thesis by (simp add: import_row_blank)
next
  case False
  then have k: "k \<noteq> row_name row" using assms by simp
  obtain r c' g' where g: "geocode_bali geocode (cache_of s) (row_address row) 2 (geo s) = (r, c', g')"
    by (cases "geocode_bali geocode (cache_of s) (row_address row) 2 (geo s)") auto
  show ?thesis
  proof (cases r)
    case None
    then show ?thesis using import_row_failed[OF False, of geocode s c' g'] g by simp
  next
    case (Some loc)
    have g': "geocode_bali geocode (cache_of s) (row_address row) 2 (geo s) = (Some loc, c', g')"
      using g Some by simp
    show ?thesis
    proof (cases "db s (row_name row)")
      case None
      show ?thesis unfolding import_row_new[OF False g' None] using k by simp
    next
      case (Some e)
      show ?thesis unfolding import_row_existing[OF False g' Some] using k by simp
    qed
  qed
qed

text \<open>
  C2. \<open>geocode_bali\<close> reads and writes the cache under the trimmed raw address only. A
  hit returns the cached result and leaves cache and service untouched; a lookup that
  finds nothing leaves the cache as it was; a miss that finds a place stores it under
  that key; an entry the cache holds is never changed, by one call or by the rest of a
  run.
\<close>

theorem geocode_cache_invariants:
  "(cache (strip raw) = Some res
      \<longrightarrow> geocode_bali geocode cache raw tries g = (Some res, cache, g))
   \<and> (fst (geocode_bali geocode cache raw tries g) = None
      \<longrightarrow> fst (snd (geocode_bali geocode cache raw tries g)) = cache)
   \<and> (k \<noteq> strip raw \<longrightarrow> fst (snd (geocode_bali geocode cache raw tries g)) k = cache k)
   \<and> (cache k = Some v \<longrightarrow> fst (snd (geocode_bali geocode cache raw tries g)) k = Some v)
   \<and> (cache (strip raw) = None
      \<longrightarrow> fst (snd (geocode_bali geocode cache raw tries g)) (strip raw)
          = fst (geocode_bali geocode cache raw tries g))
   \<and> (cache_of s k = Some v \<longrightarrow> cache_of (fst (import_rows geocode s n rows)) k = Some v)"
  using geocode_bali_keeps[of cache k v geocode raw tries g]
    import_rows_keeps_cache[of s k v geocode n rows]
  by (auto simp: geocode_bali_hit geocode_bali_cache_cases split: option.splits)

theorem geocode_cache_invariants_witness:
  "geocode_bali (found_at \<lparr>lat = 0, lon = 0\<rparr>) [''x'' \<mapsto> sample_loc] '' x '' 2 ()
      = (Some sample_loc, [''x'' \<mapsto> sample_loc], ())
   \<and> normalize_address ''x'' = normalize_address ''x, Bali''
   \<and> fst (geocode_bali never_found [''x'' \<mapsto> sample_loc] ''x, Bali'' 2 ()) = None
   \<and> fst (snd (geocode_bali never_found [''x'' \<mapsto> sample_loc] ''x, Bali'' 2 ()))
       = [''x'' \<mapsto> sample_loc]
   \<and> fst (snd (geocode_bali (found_at \<lparr>lat = 0, lon = 0\<rparr>) [''x'' \<mapsto> sample_loc] ''x, Bali'' 2 ())) ''x''
       = Some sample_loc"
proof -
  have 1: "strip '' x '' = ''x''" "strip ''x, Bali'' = ''x, Bali''"
    by code_simp+
  have 2: "normalize_address ''x'' = normalize_address ''x, Bali''"
    by code_simp
  have 3: "fst (geocode_bali never_found [''x'' \<mapsto> sample_loc] ''x, Bali'' 2 ()) = None"
    by (simp add: geocode_bali_def 1 lookup_never_found)
  show ?thesis
    using geocode_cache_invariants[of "[''x'' \<mapsto> sample_loc]" "'' x ''" sample_loc
        "found_at \<lparr>lat = 0, lon = 0\<rparr>" 2 "()" "''x''" sample_loc]
      geocode_cache_invariants[of "[''x'' \<mapsto> sample_loc]" "''x, Bali''" sample_loc
        never_found 2 "()" "''x''" sample_loc]
      geocode_cache_invariants[of "[''x'' \<mapsto> sample_loc]" "''x, Bali''" sample_loc
        "found_at \<lparr>lat = 0, lon = 0\<rparr>" 2 "()" "''x''" sample_loc]
    by (simp add: 1 2 3)
qed


section \<open>Reconciling a row with a stored venue\<close>

lemma reconcile_coords:
  "venue_lat e \<noteq> lat loc \<or> venue_lon e \<noteq> lon loc \<Longrightarrow>
     venue_lat (fst (reconcile e addr loc insta site)) = lat loc
     \<and> venue_lon (fst (reconcile e addr loc insta site)) = lon loc
     \<and> snd (reconcile e addr loc insta site)"
  by (auto simp: reconcile_def Let_def)

lemma reconcile_instagram:
  "instagram (fst (reconcile e addr loc insta site)) = insta"
  "instagram e \<noteq> insta \<Longrightarrow> snd (reconcile e addr loc insta site)"
  by (auto simp: reconcile_def Let_def)

lemma reconcile_website:
  "website (fst (reconcile e addr loc insta site)) = (if truthy site then site else website e)"
  by (auto simp: reconcile_def Let_def)

lemma reconcile_unchanged:
  "\<not> snd (reconcile e addr loc insta site) \<Longrightarrow> fst (reconcile e addr loc insta site) = e"
  by (auto simp: reconcile_def Let_def split: if_splits)

lemma reconcile_idem:
  "\<not> snd (reconcile (fst (reconcile e a l i w)) a l i w)"
  by (auto simp: reconcile_def Let_def)

lemma reconcile_new:
  "\<not> snd (reconcile \<lparr>address = Some a, district = d, venue_lat = lat l, venue_lon = lon l,
                      instagram = i, website = w, venue_notes = n\<rparr> a l i w)"
  by (auto simp: reconcile_def Let_def)

lemma matches_Lit_ic:
  "matches True (Lit w) prev s =
     (if prefix (lower w) (lower s) then [(prev_after prev s (length w), drop (length w) s)] else [])"
  by (auto simp: Let_def prefix_iff_take lower_take length_lower)

lemma lower_scheme:
  "lower ''http'' = ''http''" "lower ''s'' = ''s''" "lower ''://'' = ''://''"
  by code_simp+

lemma has_scheme_parts:
  "has_scheme u \<longleftrightarrow> prefix ''http'' (lower u) \<and>
     (prefix ''://'' (drop (length ''http'') (lower u))
      \<or> (prefix ''s'' (drop (length ''http'') (lower u))
          \<and> prefix ''://'' (drop (length ''https'') (lower u))))"
proof -
  have 1: "prefix ''http://'' (lower u) \<longleftrightarrow>
             prefix ''http'' (lower u) \<and> prefix ''://'' (drop (length ''http'') (lower u))"
    using prefix_append_iff[of "''http''" "''://''" "lower u"] by simp
  have 2: "prefix ''https://'' (lower u) \<longleftrightarrow>
             prefix ''http'' (lower u) \<and> prefix ''s'' (drop (length ''http'') (lower u))
             \<and> prefix ''://'' (drop (length ''https'') (lower u))"
    using prefix_append_iff[of "''http''" "''s://''" "lower u"]
      prefix_append_iff[of "''s''" "''://''" "drop (length ''http'') (lower u)"] by simp
  show ?thesis unfolding has_scheme_def 1 2 by blast
qed

lemma website_pattern:
  "match_at True (seq [Bos, Lit ''http'', Opt (Lit ''s''), Lit ''://'']) None u \<noteq> None
     \<longleftrightarrow> has_scheme u"
  unfolding has_scheme_parts
  by (simp add: match_at_def seq_def matches_Lit_ic lower_scheme lower_drop
      del: matches.simps(2))

lemma resolve_website_scheme:
  "resolve_website (Some link) = (if has_scheme (strip link) then Some (strip link) else None)"
proof (cases "link = []")
  case True
  have "\<not> has_scheme []" by (simp add: has_scheme_def lower_def)
  moreover have "strip [] = []" by (simp add: strip_def strip_of_def)
  ultimately show ?thesis using True by (simp add: resolve_website_def)
next
  case False
  then show ?thesis using website_pattern[of "strip link"]
    by (simp add: resolve_website_def Let_def)
qed

lemma has_scheme_nonempty: "has_scheme u \<Longrightarrow> u \<noteq> []"
  by (auto simp: has_scheme_def lower_def)

lemma resolve_website_truthy: "truthy (resolve_website x) \<longleftrightarrow> resolve_website x \<noteq> None"
proof (cases x)
  case None
  then show ?thesis by (simp add: resolve_website_def)
next
  case (Some link)
  show ?thesis unfolding Some resolve_website_scheme using has_scheme_nonempty by auto
qed

lemma row_website_link:
  "row_website row = (if has_scheme (row_link row) then Some (row_link row) else None)"
  by (simp add: row_website_def row_link_def resolve_website_scheme strip_idem)

lemma sample_row_fields:
  "row_name sample_row = ''A''" "row_address sample_row = ''x''"
  "row_instagram sample_row = None" "row_website sample_row = None"
  "\<not> row_blank sample_row" "strip ''x'' = ''x''" "row_link sample_row = []"
  by (code_simp+)

lemma sample_geocode:
  "geocode_bali never_found (cache_of sample_session) (row_address sample_row) 2 (geo sample_session)
     = (Some sample_loc, cache_of sample_session, ())"
  by (simp add: geocode_bali_hit sample_row_fields sample_session_def)

lemma sample_existing: "db sample_session (row_name sample_row) = Some sample_venue"
  by (simp add: sample_row_fields sample_session_def)

text \<open>
  C6. When a row is reconciled against an existing venue, the stored pair of coordinates
  becomes the resolved pair as soon as one of the two differs, and the row counts as
  Updated; otherwise the stored pair stays. No other pair is ever stored.
\<close>

theorem paired_coordinate_update:
  assumes "\<not> row_blank row"
    and "geocode_bali geocode (cache_of s) (row_address row) 2 (geo s) = (Some loc, c', g')"
    and "db s (row_name row) = Some e"
  shows "map_option (\<lambda>v. (venue_lat v, venue_lon v))
             (db (snd (import_row geocode s row)) (row_name row))
           = Some (if venue_lat e \<noteq> lat loc \<or> venue_lon e \<noteq> lon loc
                   then (lat loc, lon loc) else (venue_lat e, venue_lon e))
         \<and> (venue_lat e \<noteq> lat loc \<or> venue_lon e \<noteq> lon loc
              \<longrightarrow> fst (import_row geocode s row) = Updated)"
proof -
  let ?r = "reconcile e (row_address row) loc (row_instagram row) (row_website row)"
  have pair: "(venue_lat (fst ?r), venue_lon (fst ?r))
               = (if venue_lat e \<noteq> lat loc \<or> venue_lon e \<noteq> lon loc
                  then (lat loc, lon loc) else (venue_lat e, venue_lon e))"
    by (auto simp: reconcile_def Let_def)
  have upd: "venue_lat e \<noteq> lat loc \<or> venue_lon e \<noteq> lon loc \<Longrightarrow> snd ?r"
    using reconcile_coords by blast
  show ?thesis
    unfolding import_row_existing[OF assms] using pair upd by simp
qed

theorem paired_coordinate_update_witness:
  "\<not> row_blank sample_row
   \<and> db sample_session (row_name sample_row) = Some sample_venue
   \<and> venue_lon sample_venue \<noteq> lon sample_loc
   \<and> venue_lat sample_venue = lat sample_loc
   \<and> map_option (\<lambda>v. (venue_lat v, venue_lon v))
        (db (snd (import_row never_found sample_session sample_row)) (row_name sample_row))
       = Some (- 8, 115)
   \<and> fst (import_row never_found sample_session sample_row) = Updated"
proof -
  have e: "db sample_session ''A'' = Some sample_venue"
    by (simp add: sample_session_def)
  show ?thesis
    using paired_coordinate_update[OF sample_row_fields(5) sample_geocode sample_existing]
    by (simp add: sample_row_fields e sample_venue_def sample_loc_def)
qed

text \<open>
  C10. When a row is reconciled against an existing venue, the stored instagram handle
  becomes the cleaned handle of the row, and the row counts as Updated whenever the two
  differ. A row whose Instagram name is missing or blank has the cleaned handle null, so
  it clears a stored handle.
\<close>

theorem instagram_can_be_cleared:
  assumes "\<not> row_blank row"
    and "geocode_bali geocode (cache_of s) (row_address row) 2 (geo s) = (Some loc, c', g')"
    and "db s (row_name row) = Some e"
  shows "map_option instagram (db (snd (import_row geocode s row)) (row_name row))
           = Some (row_instagram row)
         \<and> (instagram e \<noteq> row_instagram row \<longrightarrow> fst (import_row geocode s row) = Updated)
         \<and> ((case row ''Instagram name'' of None \<Rightarrow> True | Some h \<Rightarrow> \<forall>c \<in> set h. is_space c)
              \<longrightarrow> row_instagram row = None)"
proof -
  have blank: "row_instagram row = None"
    if "case row ''Instagram name'' of None \<Rightarrow> True | Some h \<Rightarrow> \<forall>c \<in> set h. is_space c"
  proof (cases "row ''Instagram name''")
    case None
    then show ?thesis by (simp add: row_instagram_def clean_instagram_def)
  next
    case (Some h)
    then have "strip h = []" using that by (simp add: strip_empty_iff)
    then show ?thesis using Some by (simp add: row_instagram_def clean_instagram_def Let_def)
  qed
  show ?thesis
    unfolding import_row_existing[OF assms]
    using reconcile_instagram blank by simp
qed

theorem instagram_can_be_cleared_witness:
  "row_instagram sample_row = None
   \<and> instagram sample_venue = Some ''old''
   \<and> map_option instagram
        (db (snd (import_row never_found (sample_session\<lparr>db := [''A'' \<mapsto> sample_venue\<lparr>venue_lon := 115\<rparr>]\<rparr>) sample_row))
           (row_name sample_row)) = Some None
   \<and> fst (import_row never_found (sample_session\<lparr>db := [''A'' \<mapsto> sample_venue\<lparr>venue_lon := 115\<rparr>]\<rparr>) sample_row)
       = Updated"
proof -
  let ?s = "sample_session\<lparr>db := [''A'' \<mapsto> sample_venue\<lparr>venue_lon := 115\<rparr>]\<rparr>"
  have g: "geocode_bali never_found (cache_of ?s) (row_address sample_row) 2 (geo ?s)
             = (Some sample_loc, cache_of ?s, ())"
    by (simp add: geocode_bali_hit sample_row_fields sample_session_def)
  have e: "db ?s (row_name sample_row) = Some (sample_venue\<lparr>venue_lon := 115\<rparr>)"
    by (simp add: sample_row_fields)
  show ?thesis
    using instagram_can_be_cleared[OF sample_row_fields(5) g e]
    by (simp add: sample_row_fields sample_venue_def)
qed

text \<open>
  C7. The website of a row is its link text, trimmed, when that begins with
  \<open>http://\<close> or \<open>https://\<close> in any letter case, and null otherwise. A new venue
  stores it; an existing venue takes it when it is not null and keeps its stored website
  when it is null.
\<close>

theorem website_rule:
  assumes "\<not> row_blank row"
    and "geocode_bali geocode (cache_of s) (row_address row) 2 (geo s) = (Some loc, c', g')"
  shows "resolve_website (Some link) = (if has_scheme (strip link) then Some (strip link) else None)
         \<and> resolve_website None = None
         \<and> row_website row = (if has_scheme (row_link row) then Some (row_link row) else None)
         \<and> map_option website (db (snd (import_row geocode s row)) (row_name row))
             = Some (case db s (row_name row) of
                       None \<Rightarrow> row_website row
                     | Some e \<Rightarrow> (case row_website row of None \<Rightarrow> website e | Some u \<Rightarrow> Some u))"
proof -
  have t: "truthy (row_website row) \<longleftrightarrow> row_website row \<noteq> None"
    unfolding row_website_def by (rule resolve_website_truthy)
  have stored: "map_option website (db (snd (import_row geocode s row)) (row_name row))
             = Some (case db s (row_name row) of
                       None \<Rightarrow> row_website row
                     | Some e \<Rightarrow> (case row_website row of None \<Rightarrow> website e | Some u \<Rightarrow> Some u))"
  proof (cases "db s (row_name row)")
    case None
    show ?thesis unfolding import_row_new[OF assms None] using None by simp
  next
    case (Some e)
    show ?thesis unfolding import_row_existing[OF assms Some] using Some t
      by (auto simp: reconcile_website split: option.splits)
  qed
  have none: "resolve_website None = None"
    by (simp add: resolve_website_def)
  show ?thesis
    using stored none by (simp add: resolve_website_scheme row_website_link)
qed

theorem website_rule_witness:
  "row_website sample_row = None
   \<and> website sample_venue = Some ''http://a''
   \<and> map_option website
        (db (snd (import_row never_found sample_session sample_row)) (row_name sample_row))
       = Some (Some ''http://a'')
   \<and> resolve_website (Some '' HTTPS://x.id/a '') = Some ''HTTPS://x.id/a''
   \<and> resolve_website (Some ''www.x.id'') = None"
proof -
  have 1: "has_scheme (strip '' HTTPS://x.id/a '')" "strip '' HTTPS://x.id/a '' = ''HTTPS://x.id/a''"
      "\<not> has_scheme (strip ''www.x.id'')"
    by code_simp+
  show ?thesis
    using website_rule[OF sample_row_fields(5) sample_geocode, of "'' HTTPS://x.id/a ''"]
      website_rule[OF sample_row_fields(5) sample_geocode, of "''www.x.id''"] 1
    by (simp add: sample_row_fields sample_session_def sample_venue_def)
qed


section \<open>The header check\<close>

lemma spaced_link_not_header: "'' Instgram link'' \<notin> set (map strip names)"
proof
  assume "'' Instgram link'' \<in> set (map strip names)"
  then obtain x where "strip x = '' Instgram link''" by auto
  then show False using strip_not_leading_space[of x "''Instgram link''"] by simp
qed

lemma missing_column_None_iff:
  "missing_column (map strip names) = None \<longleftrightarrow> set required_columns \<subseteq> set (map strip names)"
proof (cases "''Instgram link'' \<in> set (map strip names)")
  case True
  then have "wanted_columns (map strip names) = required_columns"
    using spaced_link_not_header[of names]
    by (simp add: wanted_columns_def required_columns_def)
  then show ?thesis by (auto simp: missing_column_def find_None_iff)
next
  case False
  then have w: "wanted_columns (map strip names)
                 = [''Venue'', ''Address / Notes'', ''Instagram name'', '' Instgram link'']"
    by (simp add: wanted_columns_def)
  have "missing_column (map strip names) \<noteq> None"
    unfolding missing_column_def w find_None_iff using spaced_link_not_header[of names] by auto
  moreover have "\<not> set required_columns \<subseteq> set (map strip names)"
    using False by (simp add: required_columns_def)
  ultimately show ?thesis by simp
qed

text \<open>
  C9. \<open>main\<close> exits with code 2 exactly when the CSV file exists and one of the columns
  "Venue", "Address / Notes", "Instagram name", "Instgram link" is not among the
  header names after trimming whitespace. The link column is matched under the
  spelling "Instgram link" only.
\<close>

theorem header_exit_code:
  "exit_status (main dry_run geocode w) = 2
     \<longleftrightarrow> (\<exists>f. csv w = Some f \<and> \<not> set required_columns \<subseteq> set (map strip (fieldnames f)))"
proof (cases "csv w")
  case None
  then show ?thesis by (simp add: main_def exit_status_def)
next
  case (Some f)
  show ?thesis
  proof (cases "missing_column (map strip (fieldnames f))")
    case None
    then have "set required_columns \<subseteq> set (map strip (fieldnames f))"
      using missing_column_None_iff by blast
    then show ?thesis using Some None
      by (simp add: main_def exit_status_def Let_def split: prod.splits)
  next
    case (Some col)
    then have "\<not> set required_columns \<subseteq> set (map strip (fieldnames f))"
      using missing_column_None_iff[of "fieldnames f"] by simp
    then show ?thesis using \<open>csv w = Some f\<close> Some
      by (simp add: main_def exit_status_def Let_def)
  qed
qed

theorem header_exit_code_witness:
  "set required_columns \<subseteq> set (map strip [''Venue'', ''Address / Notes'', ''Instagram name'', '' Instgram link''])
   \<and> exit_status (main False never_found
        (sample_world [''Venue'', ''Address / Notes'', ''Instagram name'', '' Instgram link''])) \<noteq> 2
   \<and> exit_status (main False never_found
        (sample_world [''Venue'', ''Address / Notes '', ''Instagram name'', ''Instgram link''])) \<noteq> 2
   \<and> exit_status (main False never_found
        (sample_world ['' Venue'', ''Instagram name'', ''Instgram link''])) = 2"
proof -
  have 1: "set required_columns \<subseteq> set (map strip [''Venue'', ''Address / Notes'', ''Instagram name'', '' Instgram link''])"
    by code_simp
  have 2: "set required_columns \<subseteq> set (map strip [''Venue'', ''Address / Notes '', ''Instagram name'', ''Instgram link''])"
    by code_simp
  have 3: "\<not> set required_columns \<subseteq> set (map strip ['' Venue'', ''Instagram name'', ''Instgram link''])"
    by code_simp
  show ?thesis
    using 1 2 3
      header_exit_code[of False never_found "sample_world [''Venue'', ''Address / Notes'', ''Instagram name'', '' Instgram link'']"]
      header_exit_code[of False never_found "sample_world [''Venue'', ''Address / Notes '', ''Instagram name'', ''Instgram link'']"]
      header_exit_code[of False never_found "sample_world ['' Venue'', ''Instagram name'', ''Instgram link'']"]
    by (simp add: sample_world_def)
qed

text \<open>A header that spells the link column "Instagram link" exits with code 2.\<close>

theorem instagram_link_header_exits_2:
  "exit_status (main False never_found
      (sample_world [''Venue'', ''Address / Notes'', ''Instagram name'', ''Instagram link''])) = 2"
proof -
  have "missing_column (map strip [''Venue'', ''Address / Notes'', ''Instagram name'', ''Instagram link''])
          = Some '' Instgram link''"
    by code_simp
  then show ?thesis
    by (simp add: main_def exit_status_def sample_world_def)
qed


section \<open>Dry run and real run\<close>

text \<open>
  C8. A dry run and a real run from the same world end alike (the same exit error, or
  the same printed counters, the same cache file and the same state of the lookup
  service) except for the table, which the dry run leaves as it found it and the real
  run replaces by the table of the session. Where the cache file can be written, it
  holds the cache of the loop in both modes.
\<close>

theorem dry_run_equivalence:
  "main True geocode w
     = map_sum id (\<lambda>r. r\<lparr>after := (after r)\<lparr>table := table w\<rparr>\<rparr>) (main False geocode w)
   \<and> (main dry_run geocode w = Inr r \<longrightarrow>
        (\<exists>f. csv w = Some f
           \<and> report r = snd (import_rows geocode (session_start w) no_counts (records f))
           \<and> table (after r)
               = (if dry_run then table w
                  else db (fst (import_rows geocode (session_start w) no_counts (records f))))
           \<and> (cache_writable w \<longrightarrow>
                cache_file (after r)
                  = Some (cache_of (fst (import_rows geocode (session_start w) no_counts (records f)))))))"
proof
  show "main True geocode w
     = map_sum id (\<lambda>r. r\<lparr>after := (after r)\<lparr>table := table w\<rparr>\<rparr>) (main False geocode w)"
    by (simp add: main_def Let_def split: option.splits prod.splits)
  show "main dry_run geocode w = Inr r \<longrightarrow>
        (\<exists>f. csv w = Some f
           \<and> report r = snd (import_rows geocode (session_start w) no_counts (records f))
           \<and> table (after r)
               = (if dry_run then table w
                  else db (fst (import_rows geocode (session_start w) no_counts (records f))))
           \<and> (cache_writable w \<longrightarrow>
                cache_file (after r)
                  = Some (cache_of (fst (import_rows geocode (session_start w) no_counts (records f))))))"
    by (auto simp: main_def Let_def session_start_def no_counts_def split: option.splits prod.splits)
qed

lemma main_runs:
  assumes "csv w = Some f" and "missing_column (map strip (fieldnames f)) = None"
  shows "main dry_run geocode w =
           Inr \<lparr>after = w\<lparr>cache_file :=
                          (if cache_writable w
                           then Some (cache_of (fst (import_rows geocode (session_start w) no_counts (records f))))
                           else cache_file w),
                        table :=
                          (if dry_run then table w
                           else db (fst (import_rows geocode (session_start w) no_counts (records f)))),
                        service := geo (fst (import_rows geocode (session_start w) no_counts (records f)))\<rparr>,
                report = snd (import_rows geocode (session_start w) no_counts (records f))\<rparr>"
  using assms
  by (simp add: main_def Let_def session_start_def no_counts_def split: prod.splits)

theorem dry_run_equivalence_witness:
  "(case main True never_found (sample_world required_columns) of
      Inl e \<Rightarrow> False
    | Inr r \<Rightarrow> created (report r) = 1 \<and> table (after r) = Map.empty
               \<and> cache_file (after r) = Some [''x'' \<mapsto> sample_loc])
   \<and> (case main False never_found (sample_world required_columns) of
      Inl e \<Rightarrow> False
    | Inr r \<Rightarrow> created (report r) = 1 \<and> table (after r) ''A'' \<noteq> None
               \<and> cache_file (after r) = Some [''x'' \<mapsto> sample_loc])"
proof -
  let ?w = "sample_world required_columns"
  have h: "missing_column (map strip required_columns) = None"
    by code_simp
  have g: "geocode_bali never_found (cache_of (session_start ?w)) (row_address sample_row) 2
             (geo (session_start ?w)) = (Some sample_loc, cache_of (session_start ?w), ())"
    by (simp add: geocode_bali_hit sample_row_fields sample_world_def session_start_def)
  have n: "db (session_start ?w) (row_name sample_row) = None"
    by (simp add: sample_world_def session_start_def)
  have run: "created (snd (import_rows never_found (session_start ?w) no_counts [sample_row])) = 1"
      "db (fst (import_rows never_found (session_start ?w) no_counts [sample_row])) ''A'' \<noteq> None"
      "cache_of (fst (import_rows never_found (session_start ?w) no_counts [sample_row]))
         = [''x'' \<mapsto> sample_loc]"
    unfolding import_rows.simps import_row_new[OF sample_row_fields(5) g n]
    by (simp_all add: no_counts_def sample_row_fields session_start_def sample_world_def)
  have w: "csv ?w = Some \<lparr>fieldnames = required_columns, records = [sample_row]\<rparr>"
      "cache_writable ?w" "table ?w = Map.empty"
    by (simp_all add: sample_world_def)
  obtain r1 where r1: "main True never_found ?w = Inr r1"
    using main_runs[OF w(1), of True never_found] h by simp
  obtain r2 where r2: "main False never_found ?w = Inr r2"
    using main_runs[OF w(1), of False never_found] h by simp
  show ?thesis
    using dry_run_equivalence[of never_found ?w True r1] dry_run_equivalence[of never_found ?w False r2]
      r1 r2 run w by auto
qed


section \<open>Running the importer twice\<close>

lemma settled_skips:
  assumes "settled (db s) (cache_of s) row"
  shows "import_row geocode s row = (Skipped, s)"
proof (cases "row_blank row")
  case True
  then show ?thesis by (rule import_row_blank)
next
  case False
  then obtain loc e where c: "cache_of s (strip (row_address row)) = Some loc"
    and e: "db s (row_name row) = Some e"
    and u: "\<not> snd (reconcile e (row_address row) loc (row_instagram row) (row_website row))"
    using assms by (auto simp: settled_def split: option.splits)
  have g: "geocode_bali geocode (cache_of s) (row_address row) 2 (geo s) = (Some loc, cache_of s, geo s)"
    using c by (rule geocode_bali_hit)
  have "(db s)(row_name row \<mapsto> e) = db s" using e by (rule map_upd_triv)
  then show ?thesis
    unfolding import_row_existing[OF False g e] using u reconcile_unchanged[OF u] by simp
qed

lemma import_row_settles:
  assumes "fst (import_row geocode s row) \<noteq> Failed"
  shows "settled (db (snd (import_row geocode s row))) (cache_of (snd (import_row geocode s row))) row"
proof (cases "row_blank row")
  case True
  then show ?thesis by (simp add: settled_def)
next
  case False
  obtain r c' g' where g: "geocode_bali geocode (cache_of s) (row_address row) 2 (geo s) = (r, c', g')"
    by (cases "geocode_bali geocode (cache_of s) (row_address row) 2 (geo s)") auto
  show ?thesis
  proof (cases r)
    case None
    then show ?thesis using assms import_row_failed[OF False, of geocode s c' g'] g by simp
  next
    case (Some loc)
    have c: "c' (strip (row_address row)) = Some loc"
      using geocode_bali_result_cached[of geocode "cache_of s" "row_address row" 2 "geo s" loc] g Some
      by simp
    have g': "geocode_bali geocode (cache_of s) (row_address row) 2 (geo s) = (Some loc, c', g')"
      using g Some by simp
    show ?thesis
    proof (cases "db s (row_name row)")
      case None
      show ?thesis unfolding import_row_new[OF False g' None]
        using c reconcile_new by (simp add: settled_def)
    next
      case (Some e)
      show ?thesis unfolding import_row_existing[OF False g' Some]
        using c reconcile_idem by (simp add: settled_def)
    qed
  qed
qed

lemma import_row_preserves:
  assumes "settled (db s) (cache_of s) r"
    and "row_blank r' \<or> row_blank r \<or> row_name r' \<noteq> row_name r"
  shows "settled (db (snd (import_row geocode s r'))) (cache_of (snd (import_row geocode s r'))) r"
proof (cases "row_blank r")
  case True
  then show ?thesis by (simp add: settled_def)
next
  case False
  then obtain loc e where c: "cache_of s (strip (row_address r)) = Some loc"
    and e: "db s (row_name r) = Some e"
    and u: "\<not> snd (reconcile e (row_address r) loc (row_instagram r) (row_website r))"
    using assms(1) by (auto simp: settled_def split: option.splits)
  have "row_blank r' \<or> row_name r \<noteq> row_name r'" using assms(2) False by auto
  then have "db (snd (import_row geocode s r')) (row_name r) = Some e"
    using import_row_db_other[of r' "row_name r" geocode s] e by simp
  moreover have "cache_of (snd (import_row geocode s r')) (strip (row_address r)) = Some loc"
    using c by (rule import_row_keeps_cache)
  ultimately show ?thesis using u by (simp add: settled_def)
qed

lemma import_rows_preserves:
  assumes "settled (db s) (cache_of s) r"
    and "\<forall>r' \<in> set rows. row_blank r' \<or> row_blank r \<or> row_name r' \<noteq> row_name r"
  shows "settled (db (fst (import_rows geocode s n rows)))
                 (cache_of (fst (import_rows geocode s n rows))) r"
  using assms
proof (induction rows arbitrary: s n)
  case Nil
  then show ?case by simp
next
  case (Cons r' rows)
  obtain out s' where st: "import_row geocode s r' = (out, s')"
    by (cases "import_row geocode s r'") auto
  have "settled (db s') (cache_of s') r"
    using import_row_preserves[OF Cons.prems(1), of r' geocode] Cons.prems(2) st by simp
  then show ?case using Cons.IH[of s'] Cons.prems(2) st by simp
qed

lemma distinct_names_Cons:
  assumes "distinct_names (r # rows)"
  shows "distinct_names rows"
    and "\<forall>r' \<in> set rows. row_blank r' \<or> row_blank r \<or> row_name r' \<noteq> row_name r"
  using assms by (auto simp: distinct_names_def image_iff split: if_splits)

lemma length_outcomes: "length (outcomes geocode s rows) = length rows"
  by (induction rows arbitrary: s) (auto split: prod.splits)

lemma first_run_settles:
  assumes "distinct_names rows" and "i < length rows"
    and "outcomes geocode s rows ! i \<noteq> Failed"
  shows "settled (db (fst (import_rows geocode s n rows)))
                 (cache_of (fst (import_rows geocode s n rows))) (rows ! i)"
  using assms
proof (induction rows arbitrary: s n i)
  case Nil
  then show ?case by simp
next
  case (Cons r rows)
  obtain out s' where st: "import_row geocode s r = (out, s')"
    by (cases "import_row geocode s r") auto
  show ?case
  proof (cases i)
    case 0
    then have "out \<noteq> Failed" using Cons.prems(3) st by simp
    then have "settled (db s') (cache_of s') r"
      using import_row_settles[of geocode s r] st by simp
    then show ?thesis
      using import_rows_preserves[of s' r rows geocode] distinct_names_Cons(2)[OF Cons.prems(1)]
        st 0 by simp
  next
    case (Suc j)
    then show ?thesis
      using Cons.IH[of j s'] Cons.prems distinct_names_Cons(1)[OF Cons.prems(1)] st by simp
  qed
qed

lemma second_run_skips:
  assumes "distinct_names rows" and "i < length rows"
    and "settled (db s) (cache_of s) (rows ! i)"
  shows "outcomes geocode s rows ! i = Skipped"
  using assms
proof (induction rows arbitrary: s i)
  case Nil
  then show ?case by simp
next
  case (Cons r rows)
  obtain out s' where st: "import_row geocode s r = (out, s')"
    by (cases "import_row geocode s r") auto
  show ?case
  proof (cases i)
    case 0
    then show ?thesis using settled_skips[of s r geocode] Cons.prems(3) by simp
  next
    case (Suc j)
    then have j: "j < length rows" "settled (db s) (cache_of s) (rows ! j)"
      using Cons.prems by simp_all
    have "row_blank r \<or> row_blank (rows ! j) \<or> row_name r \<noteq> row_name (rows ! j)"
      using distinct_names_Cons(2)[OF Cons.prems(1)] j(1) by auto
    then have "settled (db s') (cache_of s') (rows ! j)"
      using import_row_preserves[OF j(2), of r geocode] st by simp
    then show ?thesis
      using Cons.IH[of j s'] j(1) distinct_names_Cons(1)[OF Cons.prems(1)] st Suc by simp
  qed
qed

lemma import_rows_counts:
  "snd (import_rows geocode s n rows) = fold tally (outcomes geocode s rows) n"
  by (induction rows arbitrary: s n) (auto split: prod.splits)

lemma fold_tally_created: "created (fold tally outs n) = created n + count_list outs Created"
proof (induction outs arbitrary: n)
  case Nil
  then show ?case by simp
next
  case (Cons out outs)
  then show ?case by (cases out) simp_all
qed

lemma fold_tally_updated: "updated (fold tally outs n) = updated n + count_list outs Updated"
proof (induction outs arbitrary: n)
  case Nil
  then show ?case by simp
next
  case (Cons out outs)
  then show ?case by (cases out) simp_all
qed

lemma fold_tally_skipped: "skipped (fold tally outs n) = skipped n + count_list outs Skipped"
proof (induction outs arbitrary: n)
  case Nil
  then show ?case by simp
next
  case (Cons out outs)
  then show ?case by (cases out) simp_all
qed

lemma fold_tally_failed: "failed (fold tally outs n) = failed n + count_list outs Failed"
proof (induction outs arbitrary: n)
  case Nil
  then show ?case by simp
next
  case (Cons out outs)
  then show ?case by (cases out) simp_all
qed

lemmas fold_tally_counts = fold_tally_created fold_tally_updated fold_tally_skipped fold_tally_failed

lemma count_outcomes:
  "count_list outs Created + count_list outs Updated + count_list outs Skipped
     + count_list outs Failed = length outs"
proof (induction outs)
  case Nil
  then show ?case by simp
next
  case (Cons out outs)
  then show ?case by (cases out) simp_all
qed

lemma skipped_unless_failed:
  assumes "length o1 = length o2"
    and "\<forall>i < length o1. o1 ! i \<noteq> Failed \<longrightarrow> o2 ! i = Skipped"
  shows "count_list o2 Created + count_list o2 Updated + count_list o2 Failed
           \<le> count_list o1 Failed"
  using assms
proof (induction o1 o2 rule: list_induct2)
  case Nil
  then show ?case by simp
next
  case (Cons a o1 b o2)
  have tl: "\<forall>i < length o1. o1 ! i \<noteq> Failed \<longrightarrow> o2 ! i = Skipped"
    using Cons.prems by fastforce
  have hd: "a \<noteq> Failed \<longrightarrow> b = Skipped"
    using Cons.prems by fastforce
  show ?case using Cons.IH[OF tl] hd by (cases a; cases b) simp_all
qed

text \<open>
  C1. Take a CSV input in which no two rows that pass the blank test share a venue name,
  and start a second run from the table and the cache the first run ended with,
  whatever the lookup service answers then. Every row the first run counted Created,
  Updated or Skipped is counted Skipped by the second run. So Created, Updated and
  Failed of the second run together are at most Failed of the first run, and when no
  lookup failed in the first run the second run counts every row Skipped.
\<close>

theorem import_idempotent:
  assumes "distinct_names rows"
  shows "(\<forall>i < length rows.
            outcomes geocode1 s0 rows ! i \<noteq> Failed \<longrightarrow>
            outcomes geocode2 (next_run (fst (import_rows geocode1 s0 no_counts rows)) g2) rows ! i
              = Skipped)
       \<and> created (snd (import_rows geocode2
                         (next_run (fst (import_rows geocode1 s0 no_counts rows)) g2) no_counts rows))
         + updated (snd (import_rows geocode2
                         (next_run (fst (import_rows geocode1 s0 no_counts rows)) g2) no_counts rows))
         + failed (snd (import_rows geocode2
                         (next_run (fst (import_rows geocode1 s0 no_counts rows)) g2) no_counts rows))
         \<le> failed (snd (import_rows geocode1 s0 no_counts rows))
       \<and> (failed (snd (import_rows geocode1 s0 no_counts rows)) = 0 \<longrightarrow>
            snd (import_rows geocode2
                   (next_run (fst (import_rows geocode1 s0 no_counts rows)) g2) no_counts rows)
              = \<lparr>created = 0, updated = 0, skipped = length rows, failed = 0\<rparr>)"
proof -
  let ?s1 = "fst (import_rows geocode1 s0 no_counts rows)"
  let ?s2 = "next_run ?s1 g2"
  let ?o1 = "outcomes geocode1 s0 rows"
  let ?o2 = "outcomes geocode2 ?s2 rows"
  let ?n2 = "snd (import_rows geocode2 ?s2 no_counts rows)"
  have each: "\<forall>i < length rows. ?o1 ! i \<noteq> Failed \<longrightarrow> ?o2 ! i = Skipped"
  proof (intro allI impI)
    fix i assume i: "i < length rows" and f: "?o1 ! i \<noteq> Failed"
    have "settled (db ?s1) (cache_of ?s1) (rows ! i)"
      using first_run_settles[OF assms i f] .
    then have "settled (db ?s2) (cache_of ?s2) (rows ! i)"
      by (simp add: next_run_def)
    then show "?o2 ! i = Skipped"
      using second_run_skips[OF assms i] by blast
  qed
  have le: "count_list ?o2 Created + count_list ?o2 Updated + count_list ?o2 Failed
              \<le> count_list ?o1 Failed"
    using skipped_unless_failed[of ?o1 ?o2] each by (simp add: length_outcomes)
  have c2: "created ?n2 = count_list ?o2 Created" "updated ?n2 = count_list ?o2 Updated"
      "failed ?n2 = count_list ?o2 Failed" "skipped ?n2 = count_list ?o2 Skipped"
    by (simp_all add: import_rows_counts fold_tally_counts no_counts_def)
  have c1: "failed (snd (import_rows geocode1 s0 no_counts rows)) = count_list ?o1 Failed"
    by (simp add: import_rows_counts fold_tally_counts no_counts_def)
  have sum: "created ?n2 + updated ?n2 + failed ?n2 \<le> failed (snd (import_rows geocode1 s0 no_counts rows))"
    using le c1 c2 by simp
  have all: "created ?n2 + updated ?n2 + skipped ?n2 + failed ?n2 = length rows"
    using count_outcomes[of ?o2] c2 by (simp add: length_outcomes)
  have zero: "?n2 = \<lparr>created = 0, updated = 0, skipped = length rows, failed = 0\<rparr>"
    if "failed (snd (import_rows geocode1 s0 no_counts rows)) = 0"
    using that sum all by (cases ?n2) simp
  show ?thesis using each sum zero by blast
qed

theorem import_idempotent_witness:
  "distinct_names [row_of ''A'' ''x'', row_of ''B'' ''y'', row_of '''' ''z'']
   \<and> failed (snd (import_rows (found_at sample_loc) fresh no_counts
                  [row_of ''A'' ''x'', row_of ''B'' ''y'', row_of '''' ''z''])) = 0
   \<and> snd (import_rows never_found
            (next_run (fst (import_rows (found_at sample_loc) fresh no_counts
                              [row_of ''A'' ''x'', row_of ''B'' ''y'', row_of '''' ''z''])) ())
            no_counts [row_of ''A'' ''x'', row_of ''B'' ''y'', row_of '''' ''z''])
       = \<lparr>created = 0, updated = 0, skipped = 3, failed = 0\<rparr>"
proof -
  let ?rows = "[row_of ''A'' ''x'', row_of ''B'' ''y'', row_of '''' ''z'']"
  have d: "distinct_names ?rows"
    by code_simp
  have f: "failed (snd (import_rows (found_at sample_loc) fresh no_counts ?rows)) = 0"
    by code_simp
  show ?thesis
    using import_idempotent[OF d, of "found_at sample_loc" fresh never_found "()"] d f
    by simp
qed

text \<open>
  Two rows with the same venue name and different addresses: the first run creates the
  venue and then updates it, and a second run over the same table and cache updates it
  twice again.
\<close>

theorem duplicate_names_not_idempotent:
  "outcomes (found_at sample_loc) fresh [row_of ''A'' ''x'', row_of ''A'' ''y'']
     = [Created, Updated]
   \<and> outcomes (found_at sample_loc)
        (next_run (fst (import_rows (found_at sample_loc) fresh no_counts
                          [row_of ''A'' ''x'', row_of ''A'' ''y''])) ())
        [row_of ''A'' ''x'', row_of ''A'' ''y'']
     = [Updated, Updated]
   \<and> updated (snd (import_rows (found_at sample_loc)
        (next_run (fst (import_rows (found_at sample_loc) fresh no_counts
                          [row_of ''A'' ''x'', row_of ''A'' ''y''])) ())
        no_counts [row_of ''A'' ''x'', row_of ''A'' ''y''])) = 2"
  by code_simp

end
